theory Spec2Isabelle
  imports Complex_Main "HOL-Library.Word" "HOL-Library.Multiset"
begin

section \<open>Closed enumerations of app.js\<close>

text \<open>
  The four arms are the string tags \<open>'north'\<close>, \<open>'south'\<close>, \<open>'east'\<close>, \<open>'west'\<close>;
  the three movements are \<open>'left'\<close>, \<open>'straight'\<close>, \<open>'right'\<close>; the ten phase keys
  are the values of the table \<open>PH\<close>.
\<close>

datatype dir = North | South | East | West

datatype move = MLeft | MStraight | MRight

datatype phase = PH_N | PH_E | PH_S | PH_W | NS_S | NS_L | NS_R | EW_S | EW_L | EW_R

text \<open>\<open>OPP_D\<close>, \<open>LEFT_D\<close>, \<open>RIGHT_D\<close>: the direction maps.\<close>

fun OPP_D :: "dir \<Rightarrow> dir" where
  "OPP_D North = South"
| "OPP_D South = North"
| "OPP_D East = West"
| "OPP_D West = East"

fun LEFT_D :: "dir \<Rightarrow> dir" where
  "LEFT_D North = West"
| "LEFT_D West = South"
| "LEFT_D South = East"
| "LEFT_D East = North"

fun RIGHT_D :: "dir \<Rightarrow> dir" where
  "RIGHT_D North = East"
| "RIGHT_D East = South"
| "RIGHT_D South = West"
| "RIGHT_D West = North"

text \<open>
  \<open>LANE_MOVE = ['left', 'straight', 'right']\<close>, read by index. An index outside the
  array reads \<open>undefined\<close> in JavaScript, which is \<open>None\<close> here; a movement value is
  therefore a \<open>move option\<close> wherever the source passes \<open>v.move\<close> around.
\<close>

definition LANE_MOVE :: "nat \<Rightarrow> move option" where
  "LANE_MOVE lane =
     (if lane = 0 then Some MLeft
      else if lane = 1 then Some MStraight
      else if lane = 2 then Some MRight
      else None)"

definition FIXED_PHASE_SEQ :: "phase list" where
  "FIXED_PHASE_SEQ = [PH_N, PH_E, PH_S, PH_W]"

definition AI_PHASE_SEQ :: "phase list" where
  "AI_PHASE_SEQ = [NS_S, NS_L, NS_R, EW_S, EW_L, EW_R]"

definition ALL_PHASES :: "phase list" where
  "ALL_PHASES = [PH_N, PH_E, PH_S, PH_W, NS_S, NS_L, NS_R, EW_S, EW_L, EW_R]"

section \<open>The phase predicate\<close>

text \<open>
  \<open>phaseAllows(ph, dir, move)\<close>: the branches in the order of the source. The final
  \<open>return false\<close> is unreachable for the ten keys of \<open>PH\<close>.
\<close>

definition phaseAllows :: "phase \<Rightarrow> dir \<Rightarrow> move option \<Rightarrow> bool" where
  "phaseAllows ph d mv =
     (if ph = PH_N then (d = North) \<or> (mv = Some MLeft \<and> d \<noteq> North)
      else if ph = PH_E then (d = East) \<or> (mv = Some MLeft \<and> d \<noteq> East)
      else if ph = PH_S then (d = South) \<or> (mv = Some MLeft \<and> d \<noteq> South)
      else if ph = PH_W then (d = West) \<or> (mv = Some MLeft \<and> d \<noteq> West)
      else
        (let ns = (d = North \<or> d = South);
             ew = (d = East \<or> d = West)
         in if ph = NS_S then ns \<and> mv = Some MStraight
            else if ph = NS_L then ns \<and> mv = Some MLeft
            else if ph = NS_R then ns \<and> mv = Some MRight
            else if ph = EW_S then ew \<and> mv = Some MStraight
            else if ph = EW_L then ew \<and> mv = Some MLeft
            else if ph = EW_R then ew \<and> mv = Some MRight
            else False))"

text \<open>
  Two arms are perpendicular when one is the left or the right neighbour of the other
  (neither equal nor opposite).
\<close>

definition perpendicular :: "dir \<Rightarrow> dir \<Rightarrow> bool" where
  "perpendicular a1 a2 = (a2 = LEFT_D a1 \<or> a2 = RIGHT_D a1)"

text \<open>The arm a single-arm phase is named after; \<open>None\<close> for a paired-axis phase.\<close>

fun main_arm :: "phase \<Rightarrow> dir option" where
  "main_arm PH_N = Some North"
| "main_arm PH_E = Some East"
| "main_arm PH_S = Some South"
| "main_arm PH_W = Some West"
| "main_arm _ = None"

section \<open>JavaScript numbers\<close>

text \<open>
  A JavaScript number is a finite value, \<open>NaN\<close> or one of the two infinities. Finite
  IEEE doubles are idealised as reals throughout (rounding error of the floating-point
  operations is not modelled); the non-finite values are kept because the duration
  arguments of the controller may be any number.
\<close>

datatype jsnum = Fin real | NaN | PosInf | NegInf

text \<open>\<open>x || d\<close> on numbers: \<open>0\<close> and \<open>NaN\<close> are falsy.\<close>

definition js_or :: "jsnum \<Rightarrow> jsnum \<Rightarrow> jsnum" where
  "js_or x d = (if x = Fin 0 \<or> x = NaN then d else x)"

text \<open>\<open>Math.round\<close>: to the nearest integer, halves upwards.\<close>

definition round_half_up :: "real \<Rightarrow> real" where
  "round_half_up r = of_int \<lfloor>r + 1 / 2\<rfloor>"

fun Math_round :: "jsnum \<Rightarrow> jsnum" where
  "Math_round (Fin r) = Fin (round_half_up r)"
| "Math_round x = x"

fun Math_min :: "jsnum \<Rightarrow> jsnum \<Rightarrow> jsnum" where
  "Math_min NaN _ = NaN"
| "Math_min _ NaN = NaN"
| "Math_min NegInf _ = NegInf"
| "Math_min _ NegInf = NegInf"
| "Math_min PosInf y = y"
| "Math_min x PosInf = x"
| "Math_min (Fin a) (Fin b) = Fin (min a b)"

fun Math_max :: "jsnum \<Rightarrow> jsnum \<Rightarrow> jsnum" where
  "Math_max NaN _ = NaN"
| "Math_max _ NaN = NaN"
| "Math_max PosInf _ = PosInf"
| "Math_max _ PosInf = PosInf"
| "Math_max NegInf y = y"
| "Math_max x NegInf = x"
| "Math_max (Fin a) (Fin b) = Fin (max a b)"

text \<open>\<open>a < b\<close> on numbers: false as soon as one side is \<open>NaN\<close>.\<close>

fun js_lt :: "jsnum \<Rightarrow> jsnum \<Rightarrow> bool" where
  "js_lt NaN _ = False"
| "js_lt _ NaN = False"
| "js_lt PosInf _ = False"
| "js_lt _ NegInf = False"
| "js_lt NegInf _ = True"
| "js_lt _ PosInf = True"
| "js_lt (Fin a) (Fin b) = (a < b)"

fun Number_isFinite :: "jsnum \<Rightarrow> bool" where
  "Number_isFinite (Fin _) = True"
| "Number_isFinite _ = False"

text \<open>
  A JavaScript value where the source expects a number (a duration): absent
  (\<open>undefined\<close>), \<open>null\<close>, a boolean, a number, or anything else (a string, an array,
  an object), which is given by the number that \<open>Number()\<close> reads from it (\<open>NaN\<close> when
  it reads none). \<open>Number_js\<close> is the coercion \<open>Number(value)\<close>; the values on which
  the coercion itself throws (a symbol) are left out.
\<close>

datatype js_value = JUndefined | JNull | JBool bool | JNumber jsnum | JOther jsnum

fun Number_js :: "js_value \<Rightarrow> jsnum" where
  "Number_js JUndefined = NaN"
| "Number_js JNull = Fin 0"
| "Number_js (JBool b) = Fin (if b then 1 else 0)"
| "Number_js (JNumber x) = x"
| "Number_js (JOther x) = x"

section \<open>CONFIG\<close>

definition CANVAS_W :: real where "CANVAS_W = 520"
definition LANE_W :: real where "LANE_W = 20"
definition N_LANES :: nat where "N_LANES = 3"
definition BOX_HALF :: real where "BOX_HALF = 56"
definition CAR_L :: real where "CAR_L = 17"
definition CAR_W :: real where "CAR_W = 10"
definition CAR_GAP :: real where "CAR_GAP = 5"
definition CAR_SPD :: real where "CAR_SPD = 16 / 10"
definition FIXED_GREEN :: real where "FIXED_GREEN = 15"
definition YELLOW_DUR :: real where "YELLOW_DUR = 3"
definition ALL_RED_DUR :: real where "ALL_RED_DUR = 1"
definition SPAWN_RATE :: real where "SPAWN_RATE = 4 / 1000"
definition LCG_SEED :: "32 word" where "LCG_SEED = 1337"

definition W :: real where "W = CANVAS_W"
definition MID :: real where "MID = W / 2"

section \<open>TrafficLight\<close>

datatype subphase = Green | Yellow | AllRed

datatype sim_mode = Baseline | AI

text \<open>
  The fields of \<open>class TrafficLight\<close>. \<open>_seq\<close> is assigned \<open>FIXED_PHASE_SEQ\<close> in the
  constructor and never again, so the model reads the constant where the source reads
  the field. \<open>greenDur\<close> is an object with exactly the ten phase keys. \<open>onPhaseEnd\<close> is
  either \<open>null\<close> or a callback: the field records whether one is registered, and
  \<open>tick\<close> returns the argument of the call it makes, if it makes one.
\<close>

record traffic_light =
  mode :: sim_mode
  subPhase :: subphase
  timer :: real
  seqIdx :: nat
  phaseKey :: phase
  greenDur :: "phase \<Rightarrow> jsnum"
  nextOverride :: "phase option"
  onPhaseEnd :: bool

definition TrafficLight_new :: "sim_mode \<Rightarrow> traffic_light" where
  "TrafficLight_new m =
     \<lparr> mode = m, subPhase = Green, timer = 0, seqIdx = 0,
       phaseKey = FIXED_PHASE_SEQ ! 0,
       greenDur = (\<lambda>ph. Fin FIXED_GREEN),
       nextOverride = None, onPhaseEnd = False \<rparr>"

definition canGo :: "traffic_light \<Rightarrow> dir \<Rightarrow> move option \<Rightarrow> bool" where
  "canGo l d mv = (subPhase l = Green \<and> phaseAllows (phaseKey l) d mv)"

datatype signal = SigGreen | SigYellow | SigRed

definition stateFor :: "traffic_light \<Rightarrow> dir \<Rightarrow> move option \<Rightarrow> signal" where
  "stateFor l d mv =
     (if \<not> phaseAllows (phaseKey l) d mv then SigRed
      else if subPhase l = AllRed then SigRed
      else if subPhase l = Green then SigGreen else SigYellow)"

text \<open>The duration the running sub-phase is measured against, as \<open>tick\<close> computes it.\<close>

definition subphase_dur :: "traffic_light \<Rightarrow> jsnum" where
  "subphase_dur l =
     (if subPhase l = Green then greenDur l (phaseKey l)
      else if subPhase l = Yellow then Fin YELLOW_DUR
      else Fin ALL_RED_DUR)"

text \<open>\<open>Array.prototype.indexOf\<close>: the first index holding the value, \<open>None\<close> for \<open>-1\<close>.\<close>

fun indexOf :: "'a list \<Rightarrow> 'a \<Rightarrow> nat option" where
  "indexOf [] x = None"
| "indexOf (y # ys) x =
     (if y = x then Some 0 else map_option Suc (indexOf ys x))"

text \<open>
  \<open>TrafficLight.tick(dt)\<close>. The result pairs the new state with the phase key handed
  to \<open>onPhaseEnd\<close>, when the callback is called in this tick.
\<close>

definition light_tick :: "traffic_light \<Rightarrow> real \<Rightarrow> traffic_light \<times> phase option" where
  "light_tick l0 dt =
     (let l = l0\<lparr>timer := timer l0 + dt\<rparr>;
          dur = subphase_dur l
      in if js_lt (Fin (timer l)) dur then (l, None)
         else
           (let l1 = l\<lparr>timer := 0\<rparr>
            in if subPhase l1 = Green then (l1\<lparr>subPhase := Yellow\<rparr>, None)
               else if subPhase l1 = Yellow then
                 (l1\<lparr>subPhase := AllRed\<rparr>,
                  if onPhaseEnd l1 then Some (phaseKey l1) else None)
               else
                 (let l2 =
                    (case nextOverride l1 of
                       Some k \<Rightarrow>
                         (let l3 = l1\<lparr>phaseKey := k\<rparr>;
                              l4 = (case indexOf FIXED_PHASE_SEQ (phaseKey l3) of
                                      Some idx \<Rightarrow> l3\<lparr>seqIdx := idx\<rparr>
                                    | None \<Rightarrow> l3)
                          in l4\<lparr>nextOverride := None\<rparr>)
                     | None \<Rightarrow>
                         (let l3 = l1\<lparr>seqIdx := (seqIdx l1 + 1) mod length FIXED_PHASE_SEQ\<rparr>
                          in l3\<lparr>phaseKey := FIXED_PHASE_SEQ ! (seqIdx l3)\<rparr>))
                  in (l2\<lparr>subPhase := Green\<rparr>, None))))"

text \<open>
  The first argument of \<open>setNextPhase\<close>: a number, a string, or any other value
  (\<open>null\<close>, \<open>undefined\<close>, an object).
\<close>

datatype phase_id = IdNum jsnum | IdStr string | IdOther

text \<open>The string value of each key of \<open>PH\<close>.\<close>

fun phase_key :: "phase \<Rightarrow> string" where
  "phase_key PH_N = ''n''"
| "phase_key PH_E = ''e''"
| "phase_key PH_S = ''s''"
| "phase_key PH_W = ''w''"
| "phase_key NS_S = ''ns_s''"
| "phase_key NS_L = ''ns_l''"
| "phase_key NS_R = ''ns_r''"
| "phase_key EW_S = ''ew_s''"
| "phase_key EW_L = ''ew_l''"
| "phase_key EW_R = ''ew_r''"

text \<open>
  \<open>PHASE_NUM_MAP[phaseId]\<close> for a number: the property named by the number's decimal
  string, which exists exactly for the integers 1 to 10.
\<close>

definition PHASE_NUM_MAP :: "jsnum \<Rightarrow> phase option" where
  "PHASE_NUM_MAP x =
     (if x = Fin 1 then Some PH_N else if x = Fin 2 then Some PH_E
      else if x = Fin 3 then Some PH_S else if x = Fin 4 then Some PH_W
      else if x = Fin 5 then Some NS_S else if x = Fin 6 then Some NS_L
      else if x = Fin 7 then Some NS_R else if x = Fin 8 then Some EW_S
      else if x = Fin 9 then Some EW_L else if x = Fin 10 then Some EW_R
      else None)"

text \<open>\<open>ALL_PHASES.includes(phaseId) ? phaseId : null\<close> for a string.\<close>

definition lookup_key :: "string \<Rightarrow> phase option" where
  "lookup_key s = find (\<lambda>ph. phase_key ph = s) ALL_PHASES"

definition resolve_phase :: "phase_id \<Rightarrow> phase option" where
  "resolve_phase pid =
     (case pid of IdNum x \<Rightarrow> PHASE_NUM_MAP x
      | IdStr s \<Rightarrow> lookup_key s
      | IdOther \<Rightarrow> None)"

text \<open>
  \<open>setNextPhase(phaseId, duration)\<close>; \<open>clampDur\<close> is the expression that computes
  \<open>d\<close> from the duration argument.
\<close>

definition clampDur :: "js_value \<Rightarrow> jsnum" where
  "clampDur duration =
     Math_max (Fin 5)
       (Math_min (Fin 60) (Math_round (js_or (Number_js duration) (Fin FIXED_GREEN))))"

definition setNextPhase :: "traffic_light \<Rightarrow> phase_id \<Rightarrow> js_value \<Rightarrow> traffic_light" where
  "setNextPhase l pid duration =
     (case resolve_phase pid of
        None \<Rightarrow> l
      | Some phKey \<Rightarrow>
          (let d = clampDur duration
           in l\<lparr>greenDur := (greenDur l)(phKey := d), nextOverride := Some phKey\<rparr>))"

text \<open>
  A run of the controller: any interleaving of \<open>tick\<close> and \<open>setNextPhase\<close> calls.
\<close>

datatype light_op = OpTick real | OpSetNextPhase phase_id js_value

fun light_apply :: "traffic_light \<Rightarrow> light_op \<Rightarrow> traffic_light" where
  "light_apply l (OpTick dt) = fst (light_tick l dt)"
| "light_apply l (OpSetNextPhase pid duration) = setNextPhase l pid duration"

definition light_run :: "traffic_light \<Rightarrow> light_op list \<Rightarrow> traffic_light" where
  "light_run l ops = foldl light_apply l ops"

text \<open>A stored duration is admissible: a finite number between 5 and 60.\<close>

fun dur_ok :: "jsnum \<Rightarrow> bool" where
  "dur_ok (Fin r) = (5 \<le> r \<and> r \<le> 60)"
| "dur_ok _ = False"

text \<open>The controller after \<open>n\<close> ticks of length \<open>dt\<close>.\<close>

definition ticks :: "nat \<Rightarrow> real \<Rightarrow> traffic_light \<Rightarrow> traffic_light" where
  "ticks n dt l = ((\<lambda>l. fst (light_tick l dt)) ^^ n) l"

section \<open>Geometry\<close>

text \<open>
  Approach-lane coordinates. \<open>laneX\<close> is called for the north and south arms,
  \<open>laneY\<close> for the east and west arms; the lane is a lane index.
\<close>

definition laneX :: "dir \<Rightarrow> nat \<Rightarrow> real" where
  "laneX d lane =
     (if d = North then (let off = (real N_LANES - real lane - 1 / 2) * LANE_W in MID - off)
      else (let off = (real N_LANES - real lane - 1 / 2) * LANE_W in MID + off))"

definition laneY :: "dir \<Rightarrow> nat \<Rightarrow> real" where
  "laneY d lane =
     (let off = (real N_LANES - real lane - 1 / 2) * LANE_W
      in if d = East then MID - off else MID + off)"

text \<open>
  Exit-lane coordinates. The lane argument is whatever number \<open>buildPath\<close> stored in
  \<open>v.exitLane\<close> (negative values occur); the direction argument may be \<open>null\<close>
  (\<open>None\<close>), which equals no tag.
\<close>

definition exitLaneX :: "dir option \<Rightarrow> real \<Rightarrow> real" where
  "exitLaneX d lane =
     (let i = (if lane \<ge> real N_LANES then lane - real N_LANES else lane);
          off = (i + 1 / 2) * LANE_W
      in if d = Some North then MID + off else MID - off)"

definition exitLaneY :: "dir option \<Rightarrow> real \<Rightarrow> real" where
  "exitLaneY d lane =
     (let i = (if lane \<ge> real N_LANES then lane - real N_LANES else lane);
          off = (i + 1 / 2) * LANE_W
      in if d = Some East then MID - off else MID + off)"

record point =
  px :: real
  py :: real

definition spawnPos :: "dir \<Rightarrow> nat \<Rightarrow> point" where
  "spawnPos d lane =
     (let far = W + 30
      in if d = North then \<lparr>px = laneX North lane, py = far\<rparr>
         else if d = South then \<lparr>px = laneX South lane, py = - 30\<rparr>
         else if d = East then \<lparr>px = - 30, py = laneY East lane\<rparr>
         else \<lparr>px = far, py = laneY West lane\<rparr>)"

datatype axis = AxisX | AxisY

definition stopCoord :: "dir \<Rightarrow> axis \<times> real" where
  "stopCoord d =
     (let m = BOX_HALF + CAR_L * (1 / 2) + 3
      in if d = North then (AxisY, MID + m)
         else if d = South then (AxisY, MID - m)
         else if d = East then (AxisX, MID - m)
         else (AxisX, MID + m))"

section \<open>Bezier turn paths\<close>

record bezier =
  p0 :: point
  p1 :: point
  p2 :: point
  p3 :: point

definition bezAt :: "bezier \<Rightarrow> real \<Rightarrow> point" where
  "bezAt path t =
     (let m = 1 - t
      in \<lparr> px = m*m*m * px (p0 path) + 3*m*m*t * px (p1 path)
                + 3*m*t*t * px (p2 path) + t*t*t * px (p3 path),
            py = m*m*m * py (p0 path) + 3*m*m*t * py (p1 path)
                + 3*m*t*t * py (p2 path) + t*t*t * py (p3 path) \<rparr>)"

text \<open>
  \<open>bezLen(path, steps = 24)\<close>: the loop over \<open>i = 1 .. steps\<close> carries the length so
  far and the previous sample.
\<close>

fun bezLen_loop :: "bezier \<Rightarrow> real \<Rightarrow> nat list \<Rightarrow> real \<times> point \<Rightarrow> real \<times> point" where
  "bezLen_loop path steps [] acc = acc"
| "bezLen_loop path steps (i # is) (len, prev) =
     (let p = bezAt path (real i / steps);
          dx = px p - px prev;
          dy = py p - py prev
      in bezLen_loop path steps is (len + sqrt (dx * dx + dy * dy), p))"

definition bezLen :: "bezier \<Rightarrow> real" where
  "bezLen path = max (fst (bezLen_loop path 24 [1..<25] (0, bezAt path 0))) 1"

section \<open>Vehicle\<close>

datatype lifecycle = Approach | Turning | Exit

text \<open>
  The fields of \<open>class Vehicle\<close> that the motion engine reads or writes (\<open>id\<close> and
  \<open>color\<close> serve the rendering only; the identity test \<open>o === v\<close> is the comparison
  of positions in the vehicle array). \<open>turnPath\<close>, \<open>exitDir\<close> and \<open>exitLane\<close> start as
  \<open>null\<close>, which is \<open>None\<close>.
\<close>

record vehicle =
  v_dir :: dir
  v_lane :: nat
  v_move :: "move option"
  v_x :: real
  v_y :: real
  v_phase :: lifecycle
  v_stopped :: bool
  v_waiting :: bool
  v_waitSec :: real
  v_done :: bool
  v_turnT :: real
  v_turnPath :: "bezier option"
  v_pLen :: real
  v_exitDir :: "dir option"
  v_exitLane :: "real option"

definition Vehicle_new :: "dir \<Rightarrow> nat \<Rightarrow> vehicle" where
  "Vehicle_new d lane =
     (let pos = spawnPos d lane
      in \<lparr> v_dir = d, v_lane = lane, v_move = LANE_MOVE lane,
            v_x = px pos, v_y = py pos, v_phase = Approach,
            v_stopped = False, v_waiting = False, v_waitSec = 0, v_done = False,
            v_turnT = 0, v_turnPath = None, v_pLen = 1,
            v_exitDir = None, v_exitLane = None \<rparr>)"

definition pastStop :: "vehicle \<Rightarrow> bool" where
  "pastStop v =
     (let s = stopCoord (v_dir v);
          half = CAR_L * (1 / 2)
      in if v_dir v = North then (v_y v - half) \<le> snd s
         else if v_dir v = South then (v_y v + half) \<ge> snd s
         else if v_dir v = East then (v_x v + half) \<ge> snd s
         else (v_x v - half) \<le> snd s)"

text \<open>
  What the motion engine can raise. \<open>_turn\<close> destructures \<open>v.turnPath\<close>, which is a
  \<open>TypeError\<close> when the path is \<open>null\<close>. For a lane index outside 0 to 2 the lookups
  of \<open>buildPath\<close> read \<open>undefined\<close> and the path coordinates become \<open>NaN\<close>; such
  vehicles are outside the model (the three lanes per arm are fixed), and the model
  stops with \<open>LaneOutOfRange\<close> there.
\<close>

datatype error = TypeError | LaneOutOfRange

text \<open>The two lookup tables of \<open>buildPath\<close>, indexed by entry arm and lane.\<close>

definition exitDirMap :: "dir \<Rightarrow> dir list" where
  "exitDirMap d =
     (case d of
        North \<Rightarrow> [West, North, East]
      | East \<Rightarrow> [North, East, South]
      | South \<Rightarrow> [East, South, West]
      | West \<Rightarrow> [South, West, North])"

definition exitLaneMap :: "dir \<Rightarrow> real list" where
  "exitLaneMap d =
     (case d of
        North \<Rightarrow> [2, - 2, 3]
      | East \<Rightarrow> [- 3, 4, - 1]
      | South \<Rightarrow> [2, - 2, 3]
      | West \<Rightarrow> [- 3, 4, - 1])"

text \<open>
  \<open>buildPath(v)\<close>: stores the exit arm and exit lane in the vehicle and returns the
  cubic curve from the vehicle's position to the point just outside the box on the
  exit arm.
\<close>

definition buildPath :: "vehicle \<Rightarrow> error + (vehicle \<times> bezier)" where
  "buildPath v0 =
     (if \<not> v_lane v0 < 3 then Inl LaneOutOfRange
      else
       (let box = BOX_HALF;
            mv = v_move v0;
            lane = v_lane v0;
            exitDir = exitDirMap (v_dir v0) ! lane;
            exitLane = exitLaneMap (v_dir v0) ! lane;
            v = v0\<lparr>v_exitDir := Some exitDir, v_exitLane := Some exitLane\<rparr>;
            q0 = \<lparr>px = v_x v, py = v_y v\<rparr>;
            edge = box + 1;
            q3 = (if exitDir = North then \<lparr>px = exitLaneX (Some North) exitLane, py = MID - edge\<rparr>
                  else if exitDir = South then \<lparr>px = exitLaneX (Some South) exitLane, py = MID + edge\<rparr>
                  else if exitDir = East then \<lparr>px = MID + edge, py = exitLaneY (Some East) exitLane\<rparr>
                  else \<lparr>px = MID - edge, py = exitLaneY (Some West) exitLane\<rparr>)
        in if mv = Some MStraight then
             (if v_dir v = North \<or> v_dir v = South then
                (let dy = py q3 - py q0
                 in Inr (v, \<lparr>p0 = q0,
                              p1 = \<lparr>px = px q0, py = py q0 + dy * (33 / 100)\<rparr>,
                              p2 = \<lparr>px = px q3, py = py q0 + dy * (66 / 100)\<rparr>,
                              p3 = q3\<rparr>))
              else
                (let dx = px q3 - px q0
                 in Inr (v, \<lparr>p0 = q0,
                              p1 = \<lparr>px = px q0 + dx * (33 / 100), py = py q0\<rparr>,
                              p2 = \<lparr>px = px q0 + dx * (66 / 100), py = py q3\<rparr>,
                              p3 = q3\<rparr>)))
           else
             (let r = box * (75 / 100);
                  c0 = (MID, MID);
                  c1 = (if v_dir v = North \<and> exitDir = West then (MID - r, MID + r) else c0);
                  c2 = (if v_dir v = North \<and> exitDir = East then (MID + r, MID + r) else c1);
                  c3 = (if v_dir v = South \<and> exitDir = East then (MID + r, MID - r) else c2);
                  c4 = (if v_dir v = South \<and> exitDir = West then (MID - r, MID - r) else c3);
                  c5 = (if v_dir v = East \<and> exitDir = South then (MID - r, MID + r) else c4);
                  c6 = (if v_dir v = East \<and> exitDir = North then (MID - r, MID - r) else c5);
                  c7 = (if v_dir v = West \<and> exitDir = North then (MID + r, MID - r) else c6);
                  c8 = (if v_dir v = West \<and> exitDir = South then (MID + r, MID + r) else c7);
                  cx = fst c8;
                  cy = snd c8;
                  q1 = \<lparr>px = px q0 + (cx - px q0) * (60 / 100),
                        py = py q0 + (cy - py q0) * (60 / 100)\<rparr>;
                  q2 = \<lparr>px = px q3 + (cx - px q3) * (60 / 100),
                        py = py q3 + (cy - py q3) * (60 / 100)\<rparr>
              in Inr (v, \<lparr>p0 = q0, p1 = q1, p2 = q2, p3 = q3\<rparr>))))"

section \<open>Simulation\<close>

text \<open>
  The fields of \<open>class Simulation\<close> that the engine computes with (the canvas, the
  jam flags and the rationale text \<open>aiReason\<close> serve the display only).
\<close>

record simulation =
  light :: traffic_light
  vehicles :: "vehicle list"
  simTime :: real
  totalPassed :: nat
  totalWaitSec :: real
  passedCount :: nat
  aiPending :: bool

definition Simulation_new :: "sim_mode \<Rightarrow> simulation" where
  "Simulation_new m =
     \<lparr> light = (TrafficLight_new m)\<lparr>onPhaseEnd := (m = AI)\<rparr>,
       vehicles = [], simTime = 0, totalPassed = 0, totalWaitSec = 0,
       passedCount = 0, aiPending = False \<rparr>"

definition spawn :: "simulation \<Rightarrow> dir \<Rightarrow> nat \<Rightarrow> simulation" where
  "spawn s d lane = s\<lparr>vehicles := vehicles s @ [Vehicle_new d lane]\<rparr>"

text \<open>
  \<open>laneQueues()\<close>: the object with the twelve keys \<open>dir_move\<close>, as a function of arm
  and movement. A vehicle whose movement is \<open>undefined\<close> matches no key.
\<close>

definition laneQueues :: "simulation \<Rightarrow> dir \<Rightarrow> move \<Rightarrow> nat" where
  "laneQueues s d mv =
     length (filter (\<lambda>v. v_phase v = Approach \<and> v_dir v = d \<and> v_move v = Some mv)
               (vehicles s))"

definition dirQueues :: "simulation \<Rightarrow> dir \<Rightarrow> nat" where
  "dirQueues s d =
     length (filter (\<lambda>v. v_phase v = Approach \<and> v_dir v = d) (vehicles s))"

definition avgWait :: "simulation \<Rightarrow> real" where
  "avgWait s =
     (if passedCount s \<noteq> 0 then totalWaitSec s / real (passedCount s) else 0)"

text \<open>
  \<open>_gap(v)\<close> for the vehicle at position \<open>i\<close> of the array: the smallest non-negative
  bumper-to-bumper distance to another approaching vehicle of the same arm and lane.
  \<open>None\<close> is \<open>Infinity\<close>, the value when there is no such vehicle.
\<close>

definition gap_to :: "vehicle \<Rightarrow> vehicle \<Rightarrow> real" where
  "gap_to v other =
     (case v_dir v of
        North \<Rightarrow> v_y v - v_y other - CAR_L
      | South \<Rightarrow> v_y other - v_y v - CAR_L
      | East \<Rightarrow> v_x other - v_x v - CAR_L
      | West \<Rightarrow> v_x v - v_x other - CAR_L)"

fun gap_loop :: "vehicle \<Rightarrow> nat \<Rightarrow> (nat \<times> vehicle) list \<Rightarrow> real option \<Rightarrow> real option" where
  "gap_loop v i [] mn = mn"
| "gap_loop v i ((j, other) # rest) mn =
     (if j = i \<or> v_dir other \<noteq> v_dir v \<or> v_lane other \<noteq> v_lane v
         \<or> v_phase other \<noteq> Approach
      then gap_loop v i rest mn
      else
        (let gap = gap_to v other
         in if gap \<ge> 0 \<and> (case mn of None \<Rightarrow> True | Some m \<Rightarrow> gap < m)
            then gap_loop v i rest (Some gap)
            else gap_loop v i rest mn))"

definition gap_of :: "simulation \<Rightarrow> nat \<Rightarrow> real option" where
  "gap_of s i = gap_loop (vehicles s ! i) i (enumerate 0 (vehicles s)) None"

text \<open>The step forward along the travel axis, shared by \<open>_approach\<close> and \<open>_exit\<close>.\<close>

definition advance :: "dir option \<Rightarrow> vehicle \<Rightarrow> vehicle" where
  "advance d v =
     (case d of
        Some North \<Rightarrow> v\<lparr>v_y := v_y v - CAR_SPD\<rparr>
      | Some South \<Rightarrow> v\<lparr>v_y := v_y v + CAR_SPD\<rparr>
      | Some East \<Rightarrow> v\<lparr>v_x := v_x v + CAR_SPD\<rparr>
      | _ \<Rightarrow> v\<lparr>v_x := v_x v - CAR_SPD\<rparr>)"

text \<open>
  \<open>_approach(v, dt)\<close> for the vehicle at position \<open>i\<close>; the result is the vehicle
  after the call. \<open>buildPath\<close> always returns a path object, so the source's
  \<open>if (!path) return\<close> is never taken.
\<close>

definition approach :: "simulation \<Rightarrow> nat \<Rightarrow> real \<Rightarrow> error + vehicle" where
  "approach s i dt =
     (let v = vehicles s ! i;
          green = canGo (light s) (v_dir v) (v_move v);
          atStop = pastStop v
      in if atStop \<and> \<not> green then
           Inr (v\<lparr>v_stopped := True, v_waiting := True, v_waitSec := v_waitSec v + dt\<rparr>)
         else
           (let gap = gap_of s i
            in if (case gap of None \<Rightarrow> False | Some g \<Rightarrow> g < CAR_GAP) then
                 Inr (v\<lparr>v_stopped := True, v_waiting := False\<rparr>)
               else
                 (let v1 = advance (Some (v_dir v)) (v\<lparr>v_stopped := False, v_waiting := False\<rparr>)
                  in if pastStop v1 \<and> green then
                       (case buildPath v1 of
                          Inl e \<Rightarrow> Inl e
                        | Inr (v2, path) \<Rightarrow>
                            (let v3 = v2\<lparr>v_phase := Turning, v_turnPath := Some path,
                                         v_pLen := bezLen path, v_turnT := 0\<rparr>;
                                 p = bezAt path 0
                             in Inr (v3\<lparr>v_x := px p, v_y := py p\<rparr>)))
                     else Inr v1)))"

text \<open>
  \<open>_turn(v)\<close>. A \<open>null\<close> exit lane counts as 0 in the arithmetic of \<open>exitLaneX\<close> and
  \<open>exitLaneY\<close>.
\<close>

definition turn :: "vehicle \<Rightarrow> error + vehicle" where
  "turn v =
     (case v_turnPath v of
        None \<Rightarrow> Inl TypeError
      | Some path \<Rightarrow>
          (let t = min 1 (v_turnT v + CAR_SPD / v_pLen v);
               p = bezAt path t;
               v1 = v\<lparr>v_turnT := t, v_x := px p, v_y := py p\<rparr>;
               lane = (case v_exitLane v1 of None \<Rightarrow> 0 | Some n \<Rightarrow> n)
           in if v_turnT v1 \<ge> 1 then
                (let v2 = v1\<lparr>v_phase := Exit\<rparr>
                 in if v_exitDir v2 = Some North \<or> v_exitDir v2 = Some South
                    then Inr (v2\<lparr>v_x := exitLaneX (v_exitDir v2) lane\<rparr>)
                    else Inr (v2\<lparr>v_y := exitLaneY (v_exitDir v2) lane\<rparr>))
              else Inr v1))"

text \<open>
  \<open>_exit(v)\<close> for the vehicle at position \<open>i\<close>: the only place where the accumulators
  of the simulation change.
\<close>

definition out_of_bounds :: "vehicle \<Rightarrow> bool" where
  "out_of_bounds v = (v_x v < - 50 \<or> v_x v > W + 50 \<or> v_y v < - 50 \<or> v_y v > W + 50)"

definition exit_step :: "simulation \<Rightarrow> nat \<Rightarrow> simulation" where
  "exit_step s i =
     (let v = vehicles s ! i;
          v1 = advance (v_exitDir v) v
      in if out_of_bounds v1 then
           s\<lparr>vehicles := (vehicles s)[i := v1\<lparr>v_done := True\<rparr>],
             totalPassed := totalPassed s + 1,
             totalWaitSec := totalWaitSec s + v_waitSec v1,
             passedCount := passedCount s + 1\<rparr>
         else s\<lparr>vehicles := (vehicles s)[i := v1]\<rparr>)"

definition move_vehicle :: "simulation \<Rightarrow> nat \<Rightarrow> real \<Rightarrow> error + simulation" where
  "move_vehicle s i dt =
     (let v = vehicles s ! i
      in if v_phase v = Exit then Inr (exit_step s i)
         else if v_phase v = Turning then
           (case turn v of Inl e \<Rightarrow> Inl e
            | Inr v' \<Rightarrow> Inr (s\<lparr>vehicles := (vehicles s)[i := v']\<rparr>))
         else
           (case approach s i dt of Inl e \<Rightarrow> Inl e
            | Inr v' \<Rightarrow> Inr (s\<lparr>vehicles := (vehicles s)[i := v']\<rparr>)))"

text \<open>
  The loop \<open>for (const v of this.vehicles) if (!v.done) this._move(v, dt)\<close>, from
  position \<open>i\<close> on, for \<open>n\<close> more vehicles. An exception ends the loop and the tick.
\<close>

fun move_all :: "simulation \<Rightarrow> real \<Rightarrow> nat \<Rightarrow> nat \<Rightarrow> error + simulation" where
  "move_all s dt i 0 = Inr s"
| "move_all s dt i (Suc n) =
     (if \<not> v_done (vehicles s ! i) then
        (case move_vehicle s i dt of
           Inl e \<Rightarrow> Inl e
         | Inr s' \<Rightarrow> move_all s' dt (Suc i) n)
      else move_all s dt (Suc i) n)"

section \<open>The timing advisor\<close>

text \<open>More arithmetic on JavaScript numbers: \<open>a - b\<close> and \<open>Math.abs\<close>.\<close>

fun js_sub :: "jsnum \<Rightarrow> jsnum \<Rightarrow> jsnum" where
  "js_sub NaN _ = NaN"
| "js_sub _ NaN = NaN"
| "js_sub PosInf PosInf = NaN"
| "js_sub NegInf NegInf = NaN"
| "js_sub PosInf _ = PosInf"
| "js_sub NegInf _ = NegInf"
| "js_sub _ PosInf = NegInf"
| "js_sub _ NegInf = PosInf"
| "js_sub (Fin a) (Fin b) = Fin (a - b)"

fun Math_abs :: "jsnum \<Rightarrow> jsnum" where
  "Math_abs (Fin a) = Fin \<bar>a\<bar>"
| "Math_abs NaN = NaN"
| "Math_abs _ = PosInf"

text \<open>The local helper \<open>clamp(n, lo, hi)\<close> of \<open>_callAI\<close>.\<close>

definition clamp :: "jsnum \<Rightarrow> jsnum \<Rightarrow> jsnum \<Rightarrow> jsnum" where
  "clamp n lo hi = Math_max lo (Math_min hi n)"

text \<open>
  The numeric id of a phase key in \<open>PHASE_NUM_MAP\<close>, and \<open>curId\<close>: the id of the
  context phase, 0 when the context is \<open>null\<close>.
\<close>

fun phase_num :: "phase \<Rightarrow> nat" where
  "phase_num PH_N = 1"
| "phase_num PH_E = 2"
| "phase_num PH_S = 3"
| "phase_num PH_W = 4"
| "phase_num NS_S = 5"
| "phase_num NS_L = 6"
| "phase_num NS_R = 7"
| "phase_num EW_S = 8"
| "phase_num EW_L = 9"
| "phase_num EW_R = 10"

definition curId :: "phase option \<Rightarrow> nat" where
  "curId contextPhase = (case contextPhase of None \<Rightarrow> 0 | Some ph \<Rightarrow> phase_num ph)"

text \<open>\<open>indexOf\<close> with JavaScript's \<open>-1\<close> for a value that does not occur.\<close>

definition indexOf_js :: "'a list \<Rightarrow> 'a \<Rightarrow> int" where
  "indexOf_js xs x = (case indexOf xs x of None \<Rightarrow> - 1 | Some i \<Rightarrow> int i)"

definition cw :: "nat list" where
  "cw = [1, 2, 3, 4]"

definition fixedNextId :: "phase option \<Rightarrow> nat" where
  "fixedNextId contextPhase =
     (let cur = (if curId contextPhase \<in> set cw then curId contextPhase else 1)
      in cw ! nat ((indexOf_js cw cur + 1) mod 4))"

text \<open>
  The demand table, computed from a snapshot \<open>q\<close> of the lane queues; ids 5 to 10
  hold 0, and any other index reads \<open>undefined\<close>, which \<open>|| 0\<close> turns into 0.
\<close>

type_synonym queues = "dir \<Rightarrow> move \<Rightarrow> nat"

definition demand :: "queues \<Rightarrow> nat \<Rightarrow> real" where
  "demand q n =
     (if n = 1 then real (q North MStraight) + real (q North MRight) + (25 / 100) * real (q North MLeft)
      else if n = 2 then real (q East MStraight) + real (q East MRight) + (25 / 100) * real (q East MLeft)
      else if n = 3 then real (q South MStraight) + real (q South MRight) + (25 / 100) * real (q South MLeft)
      else if n = 4 then real (q West MStraight) + real (q West MRight) + (25 / 100) * real (q West MLeft)
      else 0)"

definition targetDur :: "queues \<Rightarrow> phase option \<Rightarrow> jsnum" where
  "targetDur q contextPhase =
     (let loadNext = demand q (fixedNextId contextPhase)
      in clamp (Math_round (Fin (8 + loadNext * (18 / 10)))) (Fin 5) (Fin 45))"

text \<open>
  What the remote consultation comes to. \<open>NotConfigured\<close>: the URL test fails and no
  request is made. \<open>RequestFailed\<close>: every path into the \<open>catch\<close> block (the request
  is rejected or aborted by the 9 second timeout, the HTTP status is not ok, the body
  is not JSON, or the body is \<open>null\<close>). \<open>Response\<close>: a parsed object, of which the
  advisor reads \<open>data.duration\<close> and \<open>data.improved_over_fixed\<close> (when it is a
  boolean); \<open>next_phase\<close> is carried along to show that it is not read.
\<close>

record ai_response =
  r_duration :: js_value
  r_improved :: "bool option"
  r_next_phase :: "jsnum option"

datatype ai_outcome = NotConfigured | RequestFailed | Response ai_response

datatype rationale = Accepted | Rejected | Fallback

text \<open>The arguments of the single \<open>setNextPhase\<close> call, and the kind of rationale.\<close>

record ai_decision =
  d_phase :: nat
  d_duration :: jsnum
  d_rationale :: rationale

definition heuristic :: "queues \<Rightarrow> phase option \<Rightarrow> ai_decision" where
  "heuristic q contextPhase =
     \<lparr> d_phase = fixedNextId contextPhase, d_duration = targetDur q contextPhase,
       d_rationale = Fallback \<rparr>"

definition decide :: "queues \<Rightarrow> phase option \<Rightarrow> ai_outcome \<Rightarrow> ai_decision" where
  "decide q contextPhase out =
     (case out of
        NotConfigured \<Rightarrow> heuristic q contextPhase
      | RequestFailed \<Rightarrow> heuristic q contextPhase
      | Response data \<Rightarrow>
          (let fixedDur = Fin FIXED_GREEN;
               tgt = targetDur q contextPhase;
               aiDurRaw = Number_js (r_duration data);
               aiDur = clamp (Math_round (js_or aiDurRaw fixedDur)) (Fin 5) (Fin 45);
               modelImproved =
                 (case r_improved data of
                    Some b \<Rightarrow> b
                  | None \<Rightarrow> js_lt (Math_abs (js_sub aiDur tgt)) (Math_abs (js_sub fixedDur tgt)))
           in if Number_isFinite aiDurRaw \<and> modelImproved then
                \<lparr> d_phase = fixedNextId contextPhase, d_duration = aiDur,
                  d_rationale = Accepted \<rparr>
              else if Number_isFinite aiDurRaw then
                \<lparr> d_phase = fixedNextId contextPhase, d_duration = fixedDur,
                  d_rationale = Rejected \<rparr>
              else heuristic q contextPhase))"

text \<open>
  \<open>_callAI(contextPhase)\<close> runs in two parts. The first part runs inside the call:
  the single-flight guard, the flag and the snapshot of the lane queues. The second
  part runs when the consultation has come to its outcome (for \<open>NotConfigured\<close>,
  still inside the call): the decision, the \<open>setNextPhase\<close> call and the release of
  the flag.
\<close>

record ai_request =
  rq_context :: "phase option"
  rq_queues :: queues

definition callAI_begin :: "simulation \<Rightarrow> phase option \<Rightarrow> (simulation \<times> ai_request) option" where
  "callAI_begin s contextPhase =
     (if aiPending s then None
      else Some (s\<lparr>aiPending := True\<rparr>,
                 \<lparr>rq_context = contextPhase, rq_queues = laneQueues s\<rparr>))"

definition callAI_finish :: "simulation \<Rightarrow> ai_request \<Rightarrow> ai_outcome \<Rightarrow> simulation" where
  "callAI_finish s rq out =
     (let d = decide (rq_queues rq) (rq_context rq) out
      in s\<lparr>light := setNextPhase (light s) (IdNum (Fin (real (d_phase d))))
                       (JNumber (d_duration d)),
           aiPending := False\<rparr>)"

text \<open>
  \<open>Simulation.tick(dt)\<close>, first half: the clock and the light. The light's callback,
  when called, is \<open>_callAI\<close>, whose first part runs inside the call; the second
  component of the result is the request that starts in this tick, if one does.
\<close>

definition tick_light :: "simulation \<Rightarrow> real \<Rightarrow> simulation \<times> ai_request option" where
  "tick_light s0 dt =
     (let s1 = s0\<lparr>simTime := simTime s0 + dt\<rparr>;
          (l, note) = light_tick (light s1) dt;
          s2 = s1\<lparr>light := l\<rparr>
      in case note of
           None \<Rightarrow> (s2, None)
         | Some ph \<Rightarrow>
             (case callAI_begin s2 (Some ph) of
                None \<Rightarrow> (s2, None)
              | Some (s', r) \<Rightarrow> (s', Some r)))"

text \<open>
  \<open>Simulation.tick(dt)\<close>, whole: then every vehicle that is not done moves, and the
  vehicles that are done are dropped from the array.
\<close>

definition sim_tick :: "simulation \<Rightarrow> real \<Rightarrow> error + (simulation \<times> ai_request option)" where
  "sim_tick s0 dt =
     (let (s3, rq) = tick_light s0 dt
      in case move_all s3 dt 0 (length (vehicles s3)) of
           Inl e \<Rightarrow> Inl e
         | Inr s4 \<Rightarrow>
             Inr (s4\<lparr>vehicles := filter (\<lambda>v. \<not> v_done v) (vehicles s4)\<rparr>, rq))"

text \<open>
  A run of one scenario instance: the driver spawns vehicles and ticks, starts the
  first consultation eagerly (\<open>_callAI(null)\<close>), and a consultation in flight comes to
  its outcome between two ticks. The state pairs the simulation with the request in
  flight.
\<close>

datatype sim_event =
    EvTick real
  | EvSpawn dir nat
  | EvStart
  | EvOutcome ai_outcome

fun sim_step :: "simulation \<times> ai_request option \<Rightarrow> sim_event
    \<Rightarrow> error + (simulation \<times> ai_request option)" where
  "sim_step (s, fl) (EvTick dt) =
     (case sim_tick s dt of
        Inl e \<Rightarrow> Inl e
      | Inr (s', rq) \<Rightarrow> Inr (s', case rq of None \<Rightarrow> fl | Some r \<Rightarrow> Some r))"
| "sim_step (s, fl) (EvSpawn d lane) = Inr (spawn s d lane, fl)"
| "sim_step (s, fl) EvStart =
     (case callAI_begin s None of
        None \<Rightarrow> Inr (s, fl)
      | Some (s', r) \<Rightarrow> Inr (s', Some r))"
| "sim_step (s, fl) (EvOutcome out) =
     (case fl of
        None \<Rightarrow> Inr (s, fl)
      | Some r \<Rightarrow> Inr (callAI_finish s r out, None))"

fun sim_run :: "simulation \<times> ai_request option \<Rightarrow> sim_event list
    \<Rightarrow> error + (simulation \<times> ai_request option)" where
  "sim_run st [] = Inr st"
| "sim_run st (ev # evs) =
     (case sim_step st ev of Inl e \<Rightarrow> Inl e | Inr st' \<Rightarrow> sim_run st' evs)"

section \<open>TrafficMaster\<close>

text \<open>
  An emitted event \<open>{dir, lane}\<close> and a scheduled queue entry \<open>{time, dir, lane}\<close>.
\<close>

record event =
  e_dir :: dir
  e_lane :: nat

record scheduled =
  q_time :: real
  q_dir :: dir
  q_lane :: nat

text \<open>
  The fields of \<open>class TrafficMaster\<close>. The seed is an unsigned 32-bit value.
\<close>

record traffic_master =
  tm_seed :: "32 word"
  tm_queue :: "scheduled list"
  tm_t :: real

definition TrafficMaster_new :: traffic_master where
  "TrafficMaster_new = \<lparr> tm_seed = LCG_SEED, tm_queue = [], tm_t = 0 \<rparr>"

text \<open>
  \<open>Math.imul(a, b)\<close> is the low 32 bits of the product, read as a signed integer;
  \<open>x >>> 0\<close> is the integer \<open>x\<close> modulo \<open>2^32\<close>, read as an unsigned 32-bit
  value. The sum in between is exact: both summands are below \<open>2^31\<close> in magnitude.
\<close>

definition Math_imul :: "32 word \<Rightarrow> 32 word \<Rightarrow> int" where
  "Math_imul a b = sint (a * b)"

definition to_uint32 :: "int \<Rightarrow> 32 word" where
  "to_uint32 x = word_of_int x"

definition rng :: "'a traffic_master_scheme \<Rightarrow> 'a traffic_master_scheme \<times> real" where
  "rng tm =
     (let seed' = to_uint32 (Math_imul (tm_seed tm) 1664525 + 1013904223)
      in (tm\<lparr>tm_seed := seed'\<rparr>, real (unat seed') / 4294967296))"

text \<open>
  The loop \<open>while (queue.length && queue[0].time <= t) events.push(queue.shift())\<close>:
  the events drained and the queue that remains.
\<close>

fun drain :: "scheduled list \<Rightarrow> real \<Rightarrow> event list \<times> scheduled list" where
  "drain [] t = ([], [])"
| "drain (e # rest) t =
     (if q_time e \<le> t then
        (let (evs, rest') = drain rest t
         in (\<lparr>e_dir = q_dir e, e_lane = q_lane e\<rparr> # evs, rest'))
      else ([], e # rest))"

text \<open>
  The background spawns: one draw of the generator per arm and lane, in the order of
  the two nested loops, given as the list of (arm, lane) pairs still to visit.
\<close>

fun background :: "'a traffic_master_scheme \<Rightarrow> (dir \<times> nat) list
    \<Rightarrow> 'a traffic_master_scheme \<times> event list" where
  "background tm [] = (tm, [])"
| "background tm ((d, lane) # rest) =
     (let (tm1, r) = rng tm;
          (tm2, evs) = background tm1 rest
      in if r < SPAWN_RATE then (tm2, \<lparr>e_dir = d, e_lane = lane\<rparr> # evs)
         else (tm2, evs))"

definition arm_lane_pairs :: "(dir \<times> nat) list" where
  "arm_lane_pairs =
     concat (map (\<lambda>d. map (\<lambda>lane. (d, lane)) [0..<N_LANES]) [North, South, East, West])"

definition tm_tick :: "'a traffic_master_scheme \<Rightarrow> real
    \<Rightarrow> 'a traffic_master_scheme \<times> event list" where
  "tm_tick tm0 dt =
     (let tm1 = tm0\<lparr>tm_t := tm_t tm0 + dt\<rparr>;
          (drained, rest) = drain (tm_queue tm1) (tm_t tm1);
          tm2 = tm1\<lparr>tm_queue := rest\<rparr>;
          (tm3, spawned) = background tm2 arm_lane_pairs
      in (tm3, drained @ spawned))"

text \<open>
  \<open>_sort()\<close>: \<open>Array.prototype.sort\<close> with the comparator \<open>a.time - b.time\<close> is a
  stable sort by time.
\<close>

definition tm_sort :: "'a traffic_master_scheme \<Rightarrow> 'a traffic_master_scheme" where
  "tm_sort tm = tm\<lparr>tm_queue := sort_key q_time (tm_queue tm)\<rparr>"

definition injectDir :: "'a traffic_master_scheme \<Rightarrow> dir \<Rightarrow> 'a traffic_master_scheme" where
  "injectDir tm d =
     tm_sort (tm\<lparr>tm_queue := tm_queue tm @
        map (\<lambda>lane. \<lparr>q_time = tm_t tm + real lane * (4 / 10) + 5 / 100,
                       q_dir = d, q_lane = lane\<rparr>) [0..<N_LANES]\<rparr>)"

text \<open>
  \<open>bulkAdd(dir, n)\<close>: the first argument is \<open>'all'\<close> or an arm; the count is an
  integer, and a count below 1 schedules nothing.
\<close>

datatype bulk_target = AllArms | Arm dir

definition bulkAdd :: "'a traffic_master_scheme \<Rightarrow> bulk_target \<Rightarrow> int
    \<Rightarrow> 'a traffic_master_scheme" where
  "bulkAdd tm target n =
     (let dirs = (case target of AllArms \<Rightarrow> [North, South, East, West] | Arm d \<Rightarrow> [d])
      in tm_sort (tm\<lparr>tm_queue := tm_queue tm @
           concat (map (\<lambda>d.
             concat (map (\<lambda>i.
               map (\<lambda>lane. \<lparr>q_time = tm_t tm + real i * (5 / 10) + real lane * (15 / 100),
                              q_dir = d, q_lane = lane\<rparr>) [0..<N_LANES])
               [0..<nat n])) dirs)\<rparr>))"

definition tm_reset :: "'a traffic_master_scheme \<Rightarrow> 'a traffic_master_scheme" where
  "tm_reset tm = tm\<lparr>tm_seed := LCG_SEED, tm_queue := [], tm_t := 0\<rparr>"

text \<open>
  A call sequence on one instance, and the event lists that its \<open>tick\<close> calls return,
  in call order.
\<close>

datatype tm_call = CallTick real | CallInjectDir dir | CallBulkAdd bulk_target int

fun tm_run :: "'a traffic_master_scheme \<Rightarrow> tm_call list \<Rightarrow> event list list" where
  "tm_run tm [] = []"
| "tm_run tm (CallTick dt # calls) =
     (let (tm', evs) = tm_tick tm dt in evs # tm_run tm' calls)"
| "tm_run tm (CallInjectDir d # calls) = tm_run (injectDir tm d) calls"
| "tm_run tm (CallBulkAdd target n # calls) = tm_run (bulkAdd tm target n) calls"

text \<open>
  Several instances side by side. Every instance is an object of its own, with its own
  \<open>_seed\<close>, \<open>_queue\<close> (a fresh array per constructor call) and \<open>_t\<close>; the store maps
  the address of an instance to its fields. A method call names the instance it is made
  on and reads and writes the fields of that instance only; the entries pushed to a queue
  and the events returned by \<open>tick\<close> are fresh objects. A trace is any interleaving of
  calls on the instances of the store; the run of a trace lists, in call order, the
  address and the returned event list of every \<open>tick\<close> call.
\<close>

type_synonym tm_store = "nat \<Rightarrow> traffic_master"

fun store_run :: "tm_store \<Rightarrow> (nat \<times> tm_call) list \<Rightarrow> (nat \<times> event list) list" where
  "store_run st [] = []"
| "store_run st ((a, CallTick dt) # tr) =
     (let (tm', evs) = tm_tick (st a) dt in (a, evs) # store_run (st(a := tm')) tr)"
| "store_run st ((a, CallInjectDir d) # tr) = store_run (st(a := injectDir (st a) d)) tr"
| "store_run st ((a, CallBulkAdd target n) # tr) =
     store_run (st(a := bulkAdd (st a) target n)) tr"

text \<open>
  The calls of a trace that are made on the instance at address \<open>a\<close>, the event lists
  that the \<open>tick\<close> calls on that instance returned, and the \<open>tick\<close> calls among
  the calls.
\<close>

definition calls_on :: "nat \<Rightarrow> (nat \<times> tm_call) list \<Rightarrow> tm_call list" where
  "calls_on a tr = map snd (filter (\<lambda>c. fst c = a) tr)"

definition events_of :: "nat \<Rightarrow> (nat \<times> event list) list \<Rightarrow> event list list" where
  "events_of a out = map snd (filter (\<lambda>c. fst c = a) out)"

fun is_tick :: "tm_call \<Rightarrow> bool" where
  "is_tick (CallTick dt) = True"
| "is_tick _ = False"

text \<open>
  A vehicle leaves in the coming tick: it is in the exit phase, not yet done, and its
  step along the exit arm takes it beyond the extended boundary.
\<close>

definition exits_now :: "vehicle \<Rightarrow> bool" where
  "exits_now v =
     (\<not> v_done v \<and> v_phase v = Exit \<and> out_of_bounds (advance (v_exitDir v) v))"

text \<open>
  How far the leading edge of a vehicle lies beyond the stop coordinate of its arm, in
  the direction of travel: negative before the line, 0 on it, positive past it.
\<close>

definition overshoot :: "vehicle \<Rightarrow> real" where
  "overshoot v =
     (let s = stopCoord (v_dir v);
          half = CAR_L * (1 / 2)
      in case v_dir v of
           North \<Rightarrow> snd s - (v_y v - half)
         | South \<Rightarrow> (v_y v + half) - snd s
         | East \<Rightarrow> (v_x v + half) - snd s
         | West \<Rightarrow> snd s - (v_x v - half))"


text \<open>
  The vehicles the engine never fails on: the lane is one of the three lanes, and a
  turning vehicle has its path. A run is within the model when every spawn names one
  of the three lanes.
\<close>

definition wf_vehicle :: "vehicle \<Rightarrow> bool" where
  "wf_vehicle v = (v_lane v < 3 \<and> (v_phase v = Turning \<longrightarrow> v_turnPath v \<noteq> None))"

fun spawn_ok :: "sim_event \<Rightarrow> bool" where
  "spawn_ok (EvSpawn d lane) = (lane < N_LANES)"
| "spawn_ok _ = True"

section \<open>Example states\<close>



text \<open>A vehicle with 7 seconds of wait, one step before it leaves the canvas northwards.\<close>

definition leaving :: vehicle where
  "leaving = (Vehicle_new North 1)\<lparr>v_phase := Exit, v_exitDir := Some North,
       v_exitLane := Some (- 2), v_y := - 49, v_waitSec := 7\<rparr>"

text \<open>
  The adaptive scenario, with no vehicles, at simulated second 37: phase E has just
  ended (yellow to all-red) and the consultation that was started when phase N ended,
  at second 18, is still in flight; and that consultation's request.
\<close>

definition stale_state :: simulation where
  "stale_state =
     (Simulation_new AI)
       \<lparr>simTime := 37,
         light := (TrafficLight_new AI)\<lparr>onPhaseEnd := True, subPhase := AllRed, seqIdx := 1,
                    phaseKey := PH_E\<rparr>,
         aiPending := True\<rparr>"

definition stale_request :: ai_request where
  "stale_request = \<lparr>rq_context = Some PH_N, rq_queues = (\<lambda>d mv. 0)\<rparr>"

section \<open>Reference definitions\<close>

text \<open>
  The clockwise successor in the rotation N, E, S, W, defined for the four members of
  the rotation.
\<close>

fun clockwise_successor :: "phase \<Rightarrow> phase option" where
  "clockwise_successor PH_N = Some PH_E"
| "clockwise_successor PH_E = Some PH_S"
| "clockwise_successor PH_S = Some PH_W"
| "clockwise_successor PH_W = Some PH_N"
| "clockwise_successor _ = None"

text \<open>
  The heuristic target as the specification words it: 8 plus 1.8 times the demand,
  rounded, clamped to 5 to 45 seconds.
\<close>

definition heuristic_target :: "real \<Rightarrow> real" where
  "heuristic_target load = max 5 (min 45 (of_int (round (8 + load * (18 / 10)))))"

text \<open>
  The demand of a single-arm phase as the specification words it: the straight queue
  plus the right queue plus a quarter of the left queue of that arm.
\<close>

definition arm_demand :: "queues \<Rightarrow> dir \<Rightarrow> real" where
  "arm_demand q a = real (q a MStraight) + real (q a MRight) + real (q a MLeft) / 4"

text \<open>
  The fixed exit table: a left-turner leaves by the arm to its left, a straight-through
  vehicle by its own arm, a right-turner by the arm to its right; and the position of
  the exit lane across the road, counted from the centre line: 0 for the inner lane, 1
  for the middle lane, 2 for the outer lane.
\<close>

fun exit_arm :: "dir \<Rightarrow> move \<Rightarrow> dir" where
  "exit_arm d MLeft = LEFT_D d"
| "exit_arm d MStraight = d"
| "exit_arm d MRight = RIGHT_D d"

fun lane_rank :: "move \<Rightarrow> real" where
  "lane_rank MLeft = 2"
| "lane_rank MStraight = 1"
| "lane_rank MRight = 0"

text \<open>
  The coordinate across the road at which a vehicle leaves by exit arm \<open>d\<close> in exit
  lane \<open>lane\<close>: the one \<open>buildPath\<close> ends the curve at and \<open>_turn\<close> snaps the vehicle
  to.
\<close>

definition exit_coord :: "dir \<Rightarrow> real \<Rightarrow> real" where
  "exit_coord d lane =
     (if d = North \<or> d = South then exitLaneX (Some d) lane else exitLaneY (Some d) lane)"

text \<open>The coordinate across the road of approach lane \<open>lane\<close> of arm \<open>d\<close>.\<close>

definition lane_coord :: "dir \<Rightarrow> nat \<Rightarrow> real" where
  "lane_coord d lane = (if d = North \<or> d = South then laneX d lane else laneY d lane)"

definition path_end_coord :: "dir \<Rightarrow> bezier \<Rightarrow> real" where
  "path_end_coord d path = (if d = North \<or> d = South then px (p3 path) else py (p3 path))"

text \<open>
  The event stream as the specification words it. The generator is the linear
  congruential generator with multiplier 1664525, increment 1013904223 and modulus
  \<open>2^32\<close>, on the natural numbers, and its uniform value is the state divided by
  \<open>2^32\<close>.
\<close>

definition lcg_next :: "nat \<Rightarrow> nat" where
  "lcg_next s = (1664525 * s + 1013904223) mod 2 ^ 32"

definition lcg_uniform :: "nat \<Rightarrow> real" where
  "lcg_uniform s = real s / 2 ^ 32"

text \<open>
  The reference source holds the generator state, the clock, and the scheduled arrivals
  in the order in which they were scheduled; nothing is sorted when an arrival is
  scheduled.
\<close>

record ref_source =
  rs_seed :: nat
  rs_schedule :: "scheduled list"
  rs_clock :: real

definition ref_new :: "nat \<Rightarrow> ref_source" where
  "ref_new s = \<lparr> rs_seed = s, rs_schedule = [], rs_clock = 0 \<rparr>"

text \<open>
  The background arrivals of one tick: one draw per (arm, lane) pair, in the order of
  the pairs; the pair arrives when the uniform value of the draw is below the spawn
  probability.
\<close>

fun ref_background :: "nat \<Rightarrow> (dir \<times> nat) list \<Rightarrow> nat \<times> event list" where
  "ref_background s [] = (s, [])"
| "ref_background s ((d, lane) # rest) =
     (let s1 = lcg_next s;
          (s2, evs) = ref_background s1 rest
      in (s2, (if lcg_uniform s1 < SPAWN_RATE then [\<lparr>e_dir = d, e_lane = lane\<rparr>] else [])
               @ evs))"

text \<open>
  A tick advances the clock; the scheduled arrivals whose time has come leave the
  schedule and are emitted in ascending order of time, arrivals of equal time in the
  order in which they were scheduled; the background arrivals follow.
\<close>

definition ref_tick :: "ref_source \<Rightarrow> real \<Rightarrow> ref_source \<times> event list" where
  "ref_tick rs dt =
     (let clock = rs_clock rs + dt;
          arrived = sort_key q_time (filter (\<lambda>e. q_time e \<le> clock) (rs_schedule rs));
          waiting = filter (\<lambda>e. \<not> q_time e \<le> clock) (rs_schedule rs);
          (seed', spawned) = ref_background (rs_seed rs) arm_lane_pairs
      in (\<lparr> rs_seed = seed', rs_schedule = waiting, rs_clock = clock \<rparr>,
          map (\<lambda>e. \<lparr>e_dir = q_dir e, e_lane = q_lane e\<rparr>) arrived @ spawned))"

text \<open>
  An injection schedules one arrival per lane of the arm, 0.05, 0.45 and 0.85 seconds
  from now. A bulk injection schedules \<open>n\<close> arrivals per lane, for one arm or for all
  four: the \<open>i\<close>-th round half a second after the one before, its lanes 0.15 seconds
  apart.
\<close>

definition ref_inject :: "ref_source \<Rightarrow> dir \<Rightarrow> ref_source" where
  "ref_inject rs d =
     rs\<lparr>rs_schedule := rs_schedule rs @
        [\<lparr>q_time = rs_clock rs + 5 / 100, q_dir = d, q_lane = 0\<rparr>,
         \<lparr>q_time = rs_clock rs + 45 / 100, q_dir = d, q_lane = 1\<rparr>,
         \<lparr>q_time = rs_clock rs + 85 / 100, q_dir = d, q_lane = 2\<rparr>]\<rparr>"

definition ref_bulk :: "ref_source \<Rightarrow> bulk_target \<Rightarrow> int \<Rightarrow> ref_source" where
  "ref_bulk rs target n =
     rs\<lparr>rs_schedule := rs_schedule rs @
        concat (map (\<lambda>d. concat (map (\<lambda>i.
            [\<lparr>q_time = rs_clock rs + real i / 2, q_dir = d, q_lane = 0\<rparr>,
             \<lparr>q_time = rs_clock rs + real i / 2 + 15 / 100, q_dir = d, q_lane = 1\<rparr>,
             \<lparr>q_time = rs_clock rs + real i / 2 + 30 / 100, q_dir = d, q_lane = 2\<rparr>])
            [0..<nat n]))
          (case target of AllArms \<Rightarrow> [North, South, East, West] | Arm a \<Rightarrow> [a]))\<rparr>"

fun ref_run :: "ref_source \<Rightarrow> tm_call list \<Rightarrow> event list list" where
  "ref_run rs [] = []"
| "ref_run rs (CallTick dt # calls) =
     (let (rs', evs) = ref_tick rs dt in evs # ref_run rs' calls)"
| "ref_run rs (CallInjectDir d # calls) = ref_run (ref_inject rs d) calls"
| "ref_run rs (CallBulkAdd target n # calls) = ref_run (ref_bulk rs target n) calls"

text \<open>
  An instance of the code stands for a state of the reference source: the seed is the
  generator state, the queue is the schedule sorted by time, and the clocks agree.
\<close>

definition refines :: "traffic_master \<Rightarrow> ref_source \<Rightarrow> bool" where
  "refines tm rs =
     (unat (tm_seed tm) = rs_seed rs
      \<and> tm_queue tm = sort_key q_time (rs_schedule rs)
      \<and> tm_t tm = rs_clock rs)"

text \<open>
  The controller stays within the rotation: its phase and its pending override are
  members of \<open>FIXED_PHASE_SEQ\<close>; so is the context of a request in flight, unless it
  is the \<open>null\<close> of the eager first call.
\<close>

definition light_in_rotation :: "traffic_light \<Rightarrow> bool" where
  "light_in_rotation l =
     (phaseKey l \<in> set FIXED_PHASE_SEQ
      \<and> (case nextOverride l of None \<Rightarrow> True | Some k \<Rightarrow> k \<in> set FIXED_PHASE_SEQ))"

definition request_in_rotation :: "ai_request option \<Rightarrow> bool" where
  "request_in_rotation fl =
     (case fl of
        None \<Rightarrow> True
      | Some rq \<Rightarrow>
          (case rq_context rq of None \<Rightarrow> True | Some ph \<Rightarrow> ph \<in> set FIXED_PHASE_SEQ))"

text \<open>
  The outcomes that the advisor answers with the heuristic: no endpoint, a failed
  request, or a response whose duration does not coerce to a finite number.
\<close>

fun falls_back :: "ai_outcome \<Rightarrow> bool" where
  "falls_back NotConfigured = True"
| "falls_back RequestFailed = True"
| "falls_back (Response data) = (\<not> Number_isFinite (Number_js (r_duration data)))"

text \<open>A duration field that is not a number, in the plain sense of the word.\<close>

fun non_numeric :: "js_value \<Rightarrow> bool" where
  "non_numeric (JNumber x) = False"
| "non_numeric _ = True"

section \<open>Conflict freedom of the phase catalogs\<close>

text \<open>
  C1, as stated, fails: in the single-arm phase \<open>PH_N\<close> the straight movement of the
  north arm and the left movement of the (perpendicular) east arm are green together.
\<close>

theorem C1_conflict_counterexample:
  "perpendicular North East \<and> phaseAllows PH_N North (Some MStraight)
     \<and> phaseAllows PH_N East (Some MLeft)"
  by (simp add: perpendicular_def phaseAllows_def)

text \<open>
  C1, amended: in each of the six paired-axis phases no two movements of perpendicular
  arms are green together; in each of the four single-arm phases every movement of the
  named arm is green and, on every other arm, exactly the left movement is green, so
  two movements of perpendicular arms that are green together always include a left
  turn from an arm other than the named one, and two non-left movements of
  perpendicular arms are never green together in any of the ten phases.
\<close>

theorem C1_conflict_amended:
  "(main_arm ph = None \<and> perpendicular a1 a2
      \<longrightarrow> \<not> (phaseAllows ph a1 m1 \<and> phaseAllows ph a2 m2))
   \<and> (main_arm ph = Some a
      \<longrightarrow> phaseAllows ph a1 m1 = (a1 = a \<or> m1 = Some MLeft))
   \<and> (perpendicular a1 a2 \<and> phaseAllows ph a1 m1 \<and> phaseAllows ph a2 m2
      \<longrightarrow> (m1 = Some MLeft \<and> main_arm ph \<noteq> Some a1)
          \<or> (m2 = Some MLeft \<and> main_arm ph \<noteq> Some a2))"
  by (cases ph; cases a1; cases a2; simp add: phaseAllows_def perpendicular_def; blast?)

theorem C1_conflict_amended_witness:
  "\<not> (phaseAllows NS_S North (Some MStraight) \<and> phaseAllows NS_S East (Some MStraight))
   \<and> phaseAllows PH_E South (Some MLeft)
   \<and> \<not> phaseAllows PH_E South (Some MRight)
   \<and> phaseAllows PH_N North (Some MStraight) \<and> phaseAllows PH_N East (Some MLeft)"
  using C1_conflict_amended [of NS_S North East "Some MStraight" "Some MStraight" North]
    C1_conflict_amended [of PH_E South West "Some MLeft" "Some MLeft" East]
    C1_conflict_amended [of PH_E South West "Some MRight" "Some MLeft" East]
    C1_conflict_amended [of PH_N North East "Some MStraight" "Some MLeft" North]
  by (simp add: perpendicular_def phaseAllows_def)

section \<open>The signal state machine\<close>

text \<open>
  C6, as stated, fails: a controller with a registered callback that leaves GREEN for
  YELLOW makes no call, and the call is made when it leaves YELLOW for ALL_RED.
\<close>

theorem C6_phase_end_counterexample:
  "subPhase ((TrafficLight_new AI)\<lparr>onPhaseEnd := True\<rparr>) = Green
   \<and> subPhase (fst (light_tick ((TrafficLight_new AI)\<lparr>onPhaseEnd := True\<rparr>) 15)) = Yellow
   \<and> snd (light_tick ((TrafficLight_new AI)\<lparr>onPhaseEnd := True\<rparr>) 15) = None
   \<and> subPhase (fst (light_tick
        (fst (light_tick ((TrafficLight_new AI)\<lparr>onPhaseEnd := True\<rparr>) 15)) 3)) = AllRed
   \<and> snd (light_tick
        (fst (light_tick ((TrafficLight_new AI)\<lparr>onPhaseEnd := True\<rparr>) 15)) 3) = Some PH_N"
  by (simp add: light_tick_def TrafficLight_new_def subphase_dur_def Let_def
      FIXED_PHASE_SEQ_def FIXED_GREEN_def YELLOW_DUR_def)

text \<open>
  C6, amended: \<open>tick\<close> calls \<open>onPhaseEnd\<close>, with the key of the phase that is ending,
  exactly when a callback is registered and the tick takes the controller from YELLOW
  to ALL_RED; no other transition, and no tick without a transition, makes the call.
\<close>

theorem C6_phase_end_amended:
  "(snd (light_tick l dt) = Some k)
     = (onPhaseEnd l \<and> subPhase l = Yellow
        \<and> subPhase (fst (light_tick l dt)) = AllRed \<and> k = phaseKey l)"
  by (cases "subPhase l")
     (auto simp add: light_tick_def Let_def split: option.split)

theorem C6_phase_end_amended_witness:
  "snd (light_tick ((TrafficLight_new AI)\<lparr>onPhaseEnd := True, subPhase := Yellow\<rparr>) 3)
     = Some PH_N
   \<and> snd (light_tick ((TrafficLight_new AI)\<lparr>onPhaseEnd := True\<rparr>) 15) \<noteq> Some PH_N"
  using C6_phase_end_amended [of "(TrafficLight_new AI)\<lparr>onPhaseEnd := True, subPhase := Yellow\<rparr>" 3 PH_N]
    C6_phase_end_amended [of "(TrafficLight_new AI)\<lparr>onPhaseEnd := True\<rparr>" 15 PH_N]
  by (simp add: light_tick_def TrafficLight_new_def subphase_dur_def Let_def
      FIXED_PHASE_SEQ_def FIXED_GREEN_def YELLOW_DUR_def)

section \<open>Overrides of the next phase\<close>

lemma clampDur_ok: "dur_ok (clampDur d)"
proof (cases "js_or (Number_js d) (Fin FIXED_GREEN)")
  case (Fin r)
  then show ?thesis by (simp add: clampDur_def)
next
  case NaN
  then show ?thesis
    by (simp add: clampDur_def js_or_def split: if_splits)
next
  case PosInf
  then show ?thesis by (simp add: clampDur_def)
next
  case NegInf
  then show ?thesis by (simp add: clampDur_def)
qed

lemma resolve_phase_known:
  "(resolve_phase pid = Some k)
     = (pid = IdNum (Fin (real (phase_num k))) \<or> pid = IdStr (phase_key k))"
proof (cases pid)
  case (IdNum x)
  then show ?thesis
    by (cases k) (auto simp add: resolve_phase_def PHASE_NUM_MAP_def split: if_splits)
next
  case (IdStr s)
  then show ?thesis
    by (cases k) (auto simp add: resolve_phase_def lookup_key_def ALL_PHASES_def split: if_splits)
next
  case IdOther
  then show ?thesis by (simp add: resolve_phase_def)
qed

lemma resolve_phase_unknown:
  "(resolve_phase pid = None)
     = (\<not> (\<exists>k. pid = IdNum (Fin (real (phase_num k))) \<or> pid = IdStr (phase_key k)))"
proof -
  have "(resolve_phase pid = None) = (\<not> (\<exists>k. resolve_phase pid = Some k))" by auto
  then show ?thesis by (simp only: resolve_phase_known)
qed

text \<open>
  C7, as stated, fails: a known phase id with a duration above the admissible range is
  not a no-op. The duration 100 is stored, clamped to 60, and the override is recorded.
\<close>

theorem C7_setNextPhase_counterexample:
  "setNextPhase (TrafficLight_new AI) (IdNum (Fin 2)) (JNumber (Fin 100)) \<noteq> TrafficLight_new AI
   \<and> greenDur (setNextPhase (TrafficLight_new AI) (IdNum (Fin 2)) (JNumber (Fin 100))) PH_E = Fin 60
   \<and> nextOverride (setNextPhase (TrafficLight_new AI) (IdNum (Fin 2)) (JNumber (Fin 100))) = Some PH_E
   \<and> greenDur (TrafficLight_new AI) PH_E = Fin 15
   \<and> nextOverride (TrafficLight_new AI) = None"
proof -
  have r: "round_half_up 100 = 100"
    by (simp add: round_half_up_def)
  have g: "greenDur (setNextPhase (TrafficLight_new AI) (IdNum (Fin 2)) (JNumber (Fin 100))) PH_E = Fin 60"
    by (simp add: setNextPhase_def resolve_phase_def PHASE_NUM_MAP_def clampDur_def
        js_or_def r)
  have n: "nextOverride (setNextPhase (TrafficLight_new AI) (IdNum (Fin 2)) (JNumber (Fin 100))) = Some PH_E"
    by (simp add: setNextPhase_def resolve_phase_def PHASE_NUM_MAP_def)
  have n0: "nextOverride (TrafficLight_new AI) = None"
    by (simp add: TrafficLight_new_def)
  have g0: "greenDur (TrafficLight_new AI) PH_E = Fin 15"
    by (simp add: TrafficLight_new_def FIXED_GREEN_def)
  from n n0 have "setNextPhase (TrafficLight_new AI) (IdNum (Fin 2)) (JNumber (Fin 100)) \<noteq> TrafficLight_new AI"
    by auto
  with g n n0 g0 show ?thesis by simp
qed

text \<open>
  C7, amended: a call of \<open>setNextPhase\<close> with an unknown phase id (a number other than
  the integers 1 to 10, a string other than the ten phase keys, or a value that is
  neither) leaves the whole controller state unchanged. A call with a known phase id is
  never rejected for its duration: the duration is rounded and clamped into 5 to 60
  seconds (15 stands in for zero and for a non-number), stored as that phase's green
  duration and the phase recorded as the pending override, while the current phase, the
  sub-phase, the timer and the green durations of the other phases are retained.
\<close>

theorem C7_setNextPhase_amended:
  "(resolve_phase pid = None \<longrightarrow> setNextPhase l pid d = l)
   \<and> (resolve_phase pid = Some k \<longrightarrow>
        greenDur (setNextPhase l pid d) k = clampDur d
        \<and> dur_ok (clampDur d)
        \<and> nextOverride (setNextPhase l pid d) = Some k
        \<and> (\<forall>ph. ph \<noteq> k \<longrightarrow> greenDur (setNextPhase l pid d) ph = greenDur l ph))
   \<and> phaseKey (setNextPhase l pid d) = phaseKey l
   \<and> subPhase (setNextPhase l pid d) = subPhase l
   \<and> timer (setNextPhase l pid d) = timer l
   \<and> seqIdx (setNextPhase l pid d) = seqIdx l
   \<and> (resolve_phase pid = None)
       = (\<not> (\<exists>p. pid = IdNum (Fin (real (phase_num p))) \<or> pid = IdStr (phase_key p)))"
  using resolve_phase_unknown [of pid]
  by (cases "resolve_phase pid") (simp_all add: setNextPhase_def clampDur_ok)

theorem C7_setNextPhase_amended_witness:
  "setNextPhase (TrafficLight_new AI) (IdStr ''ns_x'') (JNumber (Fin 30)) = TrafficLight_new AI
   \<and> setNextPhase (TrafficLight_new AI) (IdNum (Fin 11)) (JNumber (Fin 30)) = TrafficLight_new AI
   \<and> greenDur (setNextPhase (TrafficLight_new AI) (IdStr ''ew_l'') (JNumber (Fin 2))) EW_L = Fin 5
   \<and> nextOverride (setNextPhase (TrafficLight_new AI) (IdStr ''ew_l'') (JNumber (Fin 2))) = Some EW_L
   \<and> greenDur (setNextPhase (TrafficLight_new AI) (IdStr ''ew_l'') (JNumber (Fin 2))) PH_N = Fin 15"
proof -
  have r: "round_half_up 2 = 2"
    by (simp add: round_half_up_def)
  have c: "clampDur (JNumber (Fin 2)) = Fin 5"
    by (simp add: clampDur_def js_or_def r)
  have u1: "resolve_phase (IdStr ''ns_x'') = None"
    by (simp add: resolve_phase_def lookup_key_def ALL_PHASES_def)
  have u2: "resolve_phase (IdNum (Fin 11)) = None"
    by (simp add: resolve_phase_def PHASE_NUM_MAP_def)
  have k: "resolve_phase (IdStr ''ew_l'') = Some EW_L"
    by (simp add: resolve_phase_def lookup_key_def ALL_PHASES_def)
  have g0: "greenDur (TrafficLight_new AI) PH_N = Fin 15"
    by (simp add: TrafficLight_new_def FIXED_GREEN_def)
  show ?thesis
    using C7_setNextPhase_amended [of "IdStr ''ns_x''" "TrafficLight_new AI" "JNumber (Fin 30)" EW_L]
      C7_setNextPhase_amended [of "IdNum (Fin 11)" "TrafficLight_new AI" "JNumber (Fin 30)" EW_L]
      C7_setNextPhase_amended [of "IdStr ''ew_l''" "TrafficLight_new AI" "JNumber (Fin 2)" EW_L]
      u1 u2 k c g0
    by simp
qed

section \<open>Admissible green durations\<close>

lemma light_tick_greenDur: "greenDur (fst (light_tick l dt)) = greenDur l"
  by (simp add: light_tick_def Let_def split: option.split)

lemma setNextPhase_greenDur_ok:
  "dur_ok (greenDur (setNextPhase l pid d) ph)
     = (if resolve_phase pid = Some ph then True else dur_ok (greenDur l ph))"
  by (cases "resolve_phase pid") (simp_all add: setNextPhase_def clampDur_ok)

lemma light_apply_dur_ok:
  "(\<And>ph. dur_ok (greenDur l ph)) \<Longrightarrow> dur_ok (greenDur (light_apply l op) ph)"
  by (cases op) (simp_all add: light_tick_greenDur setNextPhase_greenDur_ok)

lemma light_run_dur_ok:
  "(\<And>ph. dur_ok (greenDur l ph)) \<Longrightarrow> dur_ok (greenDur (light_run l ops) ph)"
proof (induction ops arbitrary: l ph)
  case Nil
  then show ?case by (simp add: light_run_def)
next
  case (Cons op ops)
  have "dur_ok (greenDur (light_run (light_apply l op) ops) ph)"
    by (rule Cons.IH) (rule light_apply_dur_ok, rule Cons.prems)
  then show ?case by (simp add: light_run_def)
qed

lemma dur_ok_positive: "dur_ok d \<Longrightarrow> js_lt (Fin 0) d"
  by (cases d) simp_all

lemma subphase_dur_timer: "subphase_dur (l\<lparr>timer := t\<rparr>) = subphase_dur l"
  by (simp add: subphase_dur_def)

lemma light_tick_stay:
  assumes "subPhase (fst (light_tick l dt)) = subPhase l"
  shows "fst (light_tick l dt) = l\<lparr>timer := timer l + dt\<rparr>
    \<and> js_lt (Fin (timer l + dt)) (subphase_dur l)"
proof (cases "js_lt (Fin (timer l + dt)) (subphase_dur l)")
  case True
  then show ?thesis by (simp add: light_tick_def Let_def subphase_dur_timer)
next
  case False
  then have "subPhase (fst (light_tick l dt)) \<noteq> subPhase l"
    by (cases "subPhase l")
       (simp_all add: light_tick_def Let_def subphase_dur_timer split: option.split)
  with assms show ?thesis by simp
qed

lemma ticks_stay:
  "(\<forall>k \<le> n. subPhase (ticks k dt l) = subPhase l)
   \<Longrightarrow> ticks n dt l = l\<lparr>timer := timer l + real n * dt\<rparr>"
proof (induction n)
  case 0
  then show ?case by (simp add: ticks_def)
next
  case (Suc n)
  have ih: "ticks n dt l = l\<lparr>timer := timer l + real n * dt\<rparr>"
    using Suc by simp
  have s: "ticks (Suc n) dt l = fst (light_tick (ticks n dt l) dt)"
    by (simp add: ticks_def)
  have "subPhase (fst (light_tick (ticks n dt l) dt)) = subPhase (ticks n dt l)"
    using Suc.prems s by (metis le_Suc_eq order_refl)
  from light_tick_stay [OF this] show ?case
    unfolding s by (simp add: ih algebra_simps)
qed

lemma light_progress:
  assumes "subphase_dur l = Fin D" and "0 < dt"
  shows "\<exists>n. subPhase (ticks n dt l) \<noteq> subPhase l"
proof (rule ccontr)
  assume "\<not> (\<exists>n. subPhase (ticks n dt l) \<noteq> subPhase l)"
  then have all: "\<And>n. subPhase (ticks n dt l) = subPhase l" by simp
  obtain n where n: "D - timer l < real n * dt"
    using reals_Archimedean3 [OF assms(2)] by blast
  have tn: "ticks n dt l = l\<lparr>timer := timer l + real n * dt\<rparr>"
    by (rule ticks_stay) (simp add: all)
  have "subPhase (fst (light_tick (ticks n dt l) dt)) = subPhase (ticks n dt l)"
    using all [of "Suc n"] all [of n] by (simp add: ticks_def)
  from light_tick_stay [OF this]
  have "js_lt (Fin (timer l + real n * dt + dt)) (subphase_dur (ticks n dt l))"
    by (simp add: tn)
  moreover have "subphase_dur (ticks n dt l) = Fin D"
    using assms(1) by (simp add: tn subphase_dur_timer)
  ultimately have "timer l + real n * dt + dt < D" by simp
  with n assms(2) show False by simp
qed

text \<open>
  C10: a freshly constructed controller stores 15 seconds for each of the ten phases;
  after any sequence of \<open>tick\<close> and \<open>setNextPhase\<close> calls, whatever the phase id and
  duration arguments (the duration may be absent, \<open>null\<close>, a boolean, a string,
  \<open>NaN\<close> or infinite), every stored green duration is a finite number between 5 and
  60, and the duration the running sub-phase is measured against is strictly positive;
  the state machine does not stall: with ticks of any positive length the sub-phase
  changes after finitely many ticks.
\<close>

theorem C10_greenDur_invariant:
  "greenDur (TrafficLight_new m) ph = Fin 15
   \<and> dur_ok (greenDur (light_run (TrafficLight_new m) ops) ph)
   \<and> js_lt (Fin 0) (subphase_dur (light_run (TrafficLight_new m) ops))
   \<and> (0 < dt \<longrightarrow>
        (\<exists>n. subPhase (ticks n dt (light_run (TrafficLight_new m) ops))
               \<noteq> subPhase (light_run (TrafficLight_new m) ops)))"
proof -
  let ?l = "light_run (TrafficLight_new m) ops"
  have init: "dur_ok (greenDur (TrafficLight_new m) p)" for p
    by (simp add: TrafficLight_new_def FIXED_GREEN_def)
  have inv: "dur_ok (greenDur ?l p)" for p
    by (rule light_run_dur_ok) (rule init)
  have pos: "js_lt (Fin 0) (subphase_dur ?l)"
    by (simp add: subphase_dur_def YELLOW_DUR_def ALL_RED_DUR_def dur_ok_positive inv)
  obtain G where G: "greenDur ?l (phaseKey ?l) = Fin G"
    using inv [of "phaseKey ?l"] by (cases "greenDur ?l (phaseKey ?l)") simp_all
  have "\<exists>D. subphase_dur ?l = Fin D"
    by (simp add: subphase_dur_def G)
  then obtain D where D: "subphase_dur ?l = Fin D" by blast
  have "\<exists>n. subPhase (ticks n dt ?l) \<noteq> subPhase ?l" if "0 < dt"
    by (rule light_progress [OF D that])
  then show ?thesis
    using pos by (simp add: inv) (simp add: TrafficLight_new_def FIXED_GREEN_def)
qed

theorem C10_greenDur_invariant_witness:
  "greenDur (light_run (TrafficLight_new AI) [OpSetNextPhase (IdNum (Fin 2)) JNull, OpTick 1])
      PH_E = Fin 15
   \<and> dur_ok (greenDur
        (light_run (TrafficLight_new AI) [OpSetNextPhase (IdNum (Fin 2)) JNull, OpTick 1]) PH_E)
   \<and> (\<exists>n. subPhase (ticks n 15
              (light_run (TrafficLight_new AI) [OpSetNextPhase (IdNum (Fin 2)) JNull, OpTick 1]))
          \<noteq> subPhase
              (light_run (TrafficLight_new AI) [OpSetNextPhase (IdNum (Fin 2)) JNull, OpTick 1]))"
proof -
  have r: "round_half_up 15 = 15" by (simp add: round_half_up_def)
  have g: "greenDur
      (light_run (TrafficLight_new AI) [OpSetNextPhase (IdNum (Fin 2)) JNull, OpTick 1]) PH_E
      = Fin 15"
    by (simp add: light_run_def light_tick_greenDur setNextPhase_def resolve_phase_def
        PHASE_NUM_MAP_def clampDur_def js_or_def FIXED_GREEN_def r)
  from C10_greenDur_invariant [of AI PH_E
      "[OpSetNextPhase (IdNum (Fin 2)) JNull, OpTick 1]" 15]
  show ?thesis using g by simp
qed

section \<open>The advisor's decision\<close>

lemma fixedNextId_cases:
  "fixedNextId ctx =
     (if ctx = Some PH_N then 2 else if ctx = Some PH_E then 3
      else if ctx = Some PH_S then 4 else if ctx = Some PH_W then 1 else 2)"
proof (cases ctx)
  case None
  then show ?thesis
    by (simp add: fixedNextId_def curId_def cw_def indexOf_js_def)
next
  case (Some ph)
  then show ?thesis
    by (cases ph) (simp_all add: fixedNextId_def curId_def cw_def indexOf_js_def)
qed

lemma resolve_fixedNextId_total:
  "\<exists>k. resolve_phase (IdNum (Fin (real (fixedNextId ctx)))) = Some k
     \<and> k \<in> set FIXED_PHASE_SEQ"
proof -
  have "fixedNextId ctx = 1 \<or> fixedNextId ctx = 2 \<or> fixedNextId ctx = 3
      \<or> fixedNextId ctx = 4"
    by (simp add: fixedNextId_cases)
  then show ?thesis
    by (auto simp add: resolve_phase_def PHASE_NUM_MAP_def FIXED_PHASE_SEQ_def)
qed

lemma d_phase_decide: "d_phase (decide q ctx out) = fixedNextId ctx"
  by (cases out) (simp_all add: decide_def heuristic_def Let_def)

lemma resolve_fixedNextId:
  "clockwise_successor ph = Some nxt
   \<Longrightarrow> resolve_phase (IdNum (Fin (real (fixedNextId (Some ph))))) = Some nxt"
  by (cases ph) (auto simp add: fixedNextId_cases resolve_phase_def PHASE_NUM_MAP_def)

lemma light_tick_note: "snd (light_tick l dt) = Some k \<Longrightarrow> k = phaseKey l"
  by (cases "subPhase l")
     (auto simp add: light_tick_def Let_def split: option.splits if_splits)

lemma light_tick_in_rotation:
  assumes "light_in_rotation l"
  shows "light_in_rotation (fst (light_tick l dt))"
proof -
  have n: "FIXED_PHASE_SEQ ! ((seqIdx l + 1) mod length FIXED_PHASE_SEQ) \<in> set FIXED_PHASE_SEQ"
    by (rule nth_mem) (simp add: FIXED_PHASE_SEQ_def)
  show ?thesis
    using assms n
    by (cases "subPhase l"; cases "nextOverride l")
       (simp_all add: light_tick_def light_in_rotation_def Let_def split: option.split)
qed

lemma move_vehicle_light: "move_vehicle s i dt = Inr s1 \<Longrightarrow> light s1 = light s"
  by (auto simp add: move_vehicle_def exit_step_def Let_def split: sum.splits if_splits)

lemma move_all_light: "move_all s dt i n = Inr s' \<Longrightarrow> light s' = light s"
proof (induction n arbitrary: s i)
  case 0
  then show ?case by simp
next
  case (Suc n)
  show ?case
  proof (cases "v_done (vehicles s ! i)")
    case True
    with Suc.prems Suc.IH [of s "Suc i"] show ?thesis by simp
  next
    case False
    then obtain s1 where s1: "move_vehicle s i dt = Inr s1" "move_all s1 dt (Suc i) n = Inr s'"
      using Suc.prems by (auto split: sum.splits)
    from Suc.IH [OF s1(2)] move_vehicle_light [OF s1(1)] show ?thesis by simp
  qed
qed

lemma tick_light_in_rotation:
  assumes "light_in_rotation (light s)"
  shows "light_in_rotation (light (fst (tick_light s dt)))
    \<and> request_in_rotation (snd (tick_light s dt))"
proof -
  have l: "light_in_rotation (fst (light_tick (light s) dt))"
    by (rule light_tick_in_rotation [OF assms])
  have k: "phaseKey (light s) \<in> set FIXED_PHASE_SEQ"
    using assms by (simp add: light_in_rotation_def)
  show ?thesis
  proof (cases "snd (light_tick (light s) dt)")
    case None
    then show ?thesis using l
      by (simp add: tick_light_def Let_def split_beta request_in_rotation_def)
  next
    case (Some ph)
    then have "ph \<in> set FIXED_PHASE_SEQ" using light_tick_note [OF Some] k by simp
    then show ?thesis using l Some
      by (simp add: tick_light_def Let_def split_beta request_in_rotation_def callAI_begin_def)
  qed
qed

lemma sim_tick_in_rotation:
  assumes "sim_tick s dt = Inr (s', rq)" and "light_in_rotation (light s)"
  shows "light_in_rotation (light s') \<and> request_in_rotation rq"
proof -
  obtain s4 where s4: "move_all (fst (tick_light s dt)) dt 0
        (length (vehicles (fst (tick_light s dt)))) = Inr s4"
      "light s' = light s4" "rq = snd (tick_light s dt)"
    using assms(1) by (auto simp add: sim_tick_def split_beta split: sum.splits)
  from move_all_light [OF s4(1)] s4(2,3) tick_light_in_rotation [OF assms(2), of dt]
  show ?thesis by simp
qed

lemma callAI_finish_in_rotation:
  assumes "light_in_rotation (light s)"
  shows "light_in_rotation (light (callAI_finish s rq out))"
proof -
  obtain k where "resolve_phase (IdNum (Fin (real (fixedNextId (rq_context rq))))) = Some k"
      "k \<in> set FIXED_PHASE_SEQ"
    using resolve_fixedNextId_total by blast
  then show ?thesis using assms
    by (simp add: callAI_finish_def Let_def d_phase_decide setNextPhase_def
        light_in_rotation_def)
qed

lemma sim_step_in_rotation:
  assumes "sim_step (s, fl) ev = Inr (s', fl')"
    and "light_in_rotation (light s)" and "request_in_rotation fl"
  shows "light_in_rotation (light s') \<and> request_in_rotation fl'"
proof (cases ev)
  case (EvTick dt)
  then obtain rq where t: "sim_tick s dt = Inr (s', rq)"
      and f: "fl' = (case rq of None \<Rightarrow> fl | Some r \<Rightarrow> Some r)"
    using assms(1) by (auto split: sum.splits)
  from sim_tick_in_rotation [OF t assms(2)] f assms(3) show ?thesis
    by (cases rq) simp_all
next
  case (EvSpawn d lane)
  then show ?thesis using assms by (auto simp add: spawn_def)
next
  case EvStart
  then show ?thesis using assms
    by (auto simp add: callAI_begin_def request_in_rotation_def split: if_splits)
next
  case (EvOutcome out)
  then show ?thesis using assms callAI_finish_in_rotation [OF assms(2)]
    by (auto simp add: request_in_rotation_def split: option.splits)
qed

lemma sim_run_in_rotation:
  "sim_run st evs = Inr st' \<Longrightarrow> light_in_rotation (light (fst st))
   \<Longrightarrow> request_in_rotation (snd st)
   \<Longrightarrow> light_in_rotation (light (fst st')) \<and> request_in_rotation (snd st')"
proof (induction evs arbitrary: st)
  case Nil
  then show ?case by simp
next
  case (Cons ev evs)
  then obtain st1 where st1: "sim_step st ev = Inr st1" "sim_run st1 evs = Inr st'"
    by (auto split: sum.splits)
  have "light_in_rotation (light (fst st1)) \<and> request_in_rotation (snd st1)"
    using sim_step_in_rotation [of "fst st" "snd st" ev "fst st1" "snd st1"] st1(1) Cons.prems(2,3)
    by simp
  with Cons.IH [OF st1(2)] show ?case by simp
qed

lemma in_rotation_successor:
  "ph \<in> set FIXED_PHASE_SEQ \<Longrightarrow> \<exists>nxt. clockwise_successor ph = Some nxt"
  by (auto simp add: FIXED_PHASE_SEQ_def)

text \<open>
  The phase id that the advisor passes to \<open>setNextPhase\<close> is computed from the context
  phase of the invocation alone: whenever that context is a member of the rotation N, E,
  S, W, the id names its clockwise successor, and the controller records that successor
  as its pending override, for every snapshot of the queues and every outcome of the
  remote consultation (not configured, failed, or any response object, whatever its
  duration, improvement flag and next-phase field). The chosen id is the same for any
  two snapshots and outcomes. The eager first call, whose context is \<open>null\<close>, chooses
  the successor of the first phase of the rotation. In every run of a scenario, the
  context of a request in flight is a member of the rotation.
\<close>

lemma advisor_phase_from_context:
  "(clockwise_successor ph = Some nxt \<longrightarrow>
      resolve_phase (IdNum (Fin (real (d_phase (decide q (Some ph) out))))) = Some nxt
      \<and> nextOverride (light (callAI_finish s \<lparr>rq_context = Some ph, rq_queues = q\<rparr> out))
          = Some nxt)
   \<and> d_phase (decide q ctx out) = d_phase (decide q' ctx out')
   \<and> resolve_phase (IdNum (Fin (real (d_phase (decide q None out)))))
       = clockwise_successor (FIXED_PHASE_SEQ ! 0)
   \<and> (sim_run (Simulation_new m, None) evs = Inr (s', Some rq) \<and> rq_context rq = Some ph'
       \<longrightarrow> (\<exists>nxt'. clockwise_successor ph' = Some nxt'))"
proof -
  have a: "resolve_phase (IdNum (Fin (real (d_phase (decide q (Some ph) out))))) = Some nxt
      \<and> nextOverride (light (callAI_finish s \<lparr>rq_context = Some ph, rq_queues = q\<rparr> out))
          = Some nxt" if "clockwise_successor ph = Some nxt"
    using that by (simp add: d_phase_decide resolve_fixedNextId callAI_finish_def Let_def
        setNextPhase_def)
  have b: "resolve_phase (IdNum (Fin (real (d_phase (decide q None out)))))
       = clockwise_successor (FIXED_PHASE_SEQ ! 0)"
    by (simp add: d_phase_decide fixedNextId_cases resolve_phase_def PHASE_NUM_MAP_def
        FIXED_PHASE_SEQ_def)
  have c: "\<exists>nxt'. clockwise_successor ph' = Some nxt'"
    if r: "sim_run (Simulation_new m, None) evs = Inr (s', Some rq)"
      and p: "rq_context rq = Some ph'"
  proof -
    have "request_in_rotation (snd (s', Some rq))"
      using sim_run_in_rotation [OF r]
      by (simp add: Simulation_new_def TrafficLight_new_def light_in_rotation_def
          request_in_rotation_def FIXED_PHASE_SEQ_def)
    then have "ph' \<in> set FIXED_PHASE_SEQ" using p by (simp add: request_in_rotation_def)
    then show ?thesis by (rule in_rotation_successor)
  qed
  show ?thesis using a b c by (simp add: d_phase_decide)
qed



lemma laneQueues_empty: "vehicles s = [] \<Longrightarrow> laneQueues s = (\<lambda>d mv. 0)"
  by (simp add: laneQueues_def fun_eq_iff)

lemma advisor_phase_from_context_example:
  "sim_run (Simulation_new AI, None) [EvTick 15, EvTick 3]
     = Inr ((Simulation_new AI)
              \<lparr>simTime := 18,
                light := (TrafficLight_new AI)\<lparr>onPhaseEnd := True, subPhase := AllRed\<rparr>,
                aiPending := True\<rparr>,
            Some \<lparr>rq_context = Some PH_N, rq_queues = (\<lambda>d mv. 0)\<rparr>)
   \<and> clockwise_successor PH_N = Some PH_E
   \<and> resolve_phase (IdNum (Fin (real (d_phase (decide (\<lambda>d mv. 0) (Some PH_N)
        (Response \<lparr>r_duration = JNumber (Fin 20), r_improved = Some True,
                   r_next_phase = Some (Fin 7)\<rparr>)))))) = Some PH_E
   \<and> nextOverride (light (callAI_finish
        ((Simulation_new AI)
              \<lparr>simTime := 18,
                light := (TrafficLight_new AI)\<lparr>onPhaseEnd := True, subPhase := AllRed\<rparr>,
                aiPending := True\<rparr>)
        \<lparr>rq_context = Some PH_N, rq_queues = (\<lambda>d mv. 0)\<rparr>
        (Response \<lparr>r_duration = JNumber (Fin 20), r_improved = Some True,
                   r_next_phase = Some (Fin 7)\<rparr>))) = Some PH_E"
proof -
  let ?s' = "(Simulation_new AI)
              \<lparr>simTime := 18,
                light := (TrafficLight_new AI)\<lparr>onPhaseEnd := True, subPhase := AllRed\<rparr>,
                aiPending := True\<rparr>"
  let ?rq = "\<lparr>rq_context = Some PH_N, rq_queues = (\<lambda>(d::dir) (mv::move). (0::nat))\<rparr>"
  let ?out = "Response \<lparr>r_duration = JNumber (Fin 20), r_improved = Some True,
                   r_next_phase = Some (Fin 7)\<rparr>"
  have r: "sim_run (Simulation_new AI, None) [EvTick 15, EvTick 3] = Inr (?s', Some ?rq)"
    by (simp add: sim_tick_def tick_light_def light_tick_def subphase_dur_def Let_def
        Simulation_new_def TrafficLight_new_def FIXED_PHASE_SEQ_def FIXED_GREEN_def
        YELLOW_DUR_def callAI_begin_def laneQueues_empty)
  have h: "clockwise_successor PH_N = Some PH_E" by simp
  have c: "rq_context ?rq = Some PH_N" by simp
  from advisor_phase_from_context [of PH_N PH_E "\<lambda>d mv. 0" ?out ?s' "Some PH_N"
      "\<lambda>d mv. 0" RequestFailed AI "[EvTick 15, EvTick 3]" ?s' ?rq PH_N]
  have t1: "clockwise_successor PH_N = Some PH_E \<longrightarrow>
      resolve_phase (IdNum (Fin (real (d_phase (decide (\<lambda>d mv. 0) (Some PH_N) ?out))))) = Some PH_E
      \<and> nextOverride (light (callAI_finish ?s' ?rq ?out)) = Some PH_E"
    by (rule conjunct1)
  then show ?thesis using r h by blast
qed

lemma sim_run_append:
  "sim_run st (evs @ evs') =
     (case sim_run st evs of Inl e \<Rightarrow> Inl e | Inr st' \<Rightarrow> sim_run st' evs')"
  by (induction evs arbitrary: st) (simp_all split: sum.split)

text \<open>
  C4 fails in the code when the outcome of a consultation arrives after a later phase
  has ended. The context phase is fixed when \<open>_callAI\<close> is entered, and a phase-end
  call that finds a consultation in flight returns at once. In the adaptive scenario
  without vehicles, tick 15 and tick 3 end phase N and start a consultation with context
  N; tick 1 ends the all-red interval and the rotation moves to E; tick 15 and tick 3
  end phase E, whose phase-end call is dropped by the single-flight guard. The phase
  that has just ended is now E, with clockwise successor S; whatever the outcome of the
  consultation in flight, the id passed to \<open>setNextPhase\<close> is 2, the controller
  records E as its pending override, and after the all-red interval E is green a second
  time, while the baseline scenario under the same ticks shows S.
\<close>

theorem C4_stale_context_repeats_phase:
  "sim_run (Simulation_new AI, None) [EvTick 15, EvTick 3, EvTick 1, EvTick 15, EvTick 3]
     = Inr (stale_state, Some stale_request)
   \<and> phaseKey (light stale_state) = PH_E
   \<and> subPhase (light stale_state) = AllRed
   \<and> timer (light stale_state) = 0
   \<and> callAI_begin stale_state (Some PH_E) = None
   \<and> rq_context stale_request = Some PH_N
   \<and> clockwise_successor PH_E = Some PH_S
   \<and> d_phase (decide (rq_queues stale_request) (rq_context stale_request) out) = 2
   \<and> resolve_phase (IdNum (Fin (real (d_phase
         (decide (rq_queues stale_request) (rq_context stale_request) out))))) = Some PH_E
   \<and> nextOverride (light (callAI_finish stale_state stale_request out)) = Some PH_E
   \<and> (\<exists>s fl. sim_run (Simulation_new AI, None)
           ([EvTick 15, EvTick 3, EvTick 1, EvTick 15, EvTick 3] @ [EvOutcome out, EvTick 1])
           = Inr (s, fl)
         \<and> phaseKey (light s) = PH_E \<and> subPhase (light s) = Green)
   \<and> (\<exists>s fl. sim_run (Simulation_new Baseline, None)
           ([EvTick 15, EvTick 3, EvTick 1, EvTick 15, EvTick 3] @ [EvTick 1])
           = Inr (s, fl)
         \<and> phaseKey (light s) = PH_S \<and> subPhase (light s) = Green)"
proof -
  note ev = sim_tick_def tick_light_def light_tick_def subphase_dur_def Let_def
    Simulation_new_def TrafficLight_new_def FIXED_PHASE_SEQ_def FIXED_GREEN_def
    YELLOW_DUR_def ALL_RED_DUR_def callAI_begin_def laneQueues_empty
  note fin = callAI_finish_def stale_request_def d_phase_decide fixedNextId_cases
    setNextPhase_def resolve_phase_def PHASE_NUM_MAP_def
  have r: "sim_run (Simulation_new AI, None)
        [EvTick 15, EvTick 3, EvTick 1, EvTick 15, EvTick 3]
      = Inr (stale_state, Some stale_request)"
    by (simp add: ev stale_state_def stale_request_def)
  have l: "phaseKey (light stale_state) = PH_E" "subPhase (light stale_state) = AllRed"
      "timer (light stale_state) = 0" "callAI_begin stale_state (Some PH_E) = None"
    by (simp_all add: stale_state_def Simulation_new_def TrafficLight_new_def
        callAI_begin_def)
  have d: "d_phase (decide (rq_queues stale_request) (rq_context stale_request) out) = 2"
    by (simp add: fin)
  have p: "resolve_phase (IdNum (Fin (real (d_phase
         (decide (rq_queues stale_request) (rq_context stale_request) out))))) = Some PH_E"
    by (simp add: fin)
  have n: "nextOverride (light (callAI_finish stale_state stale_request out)) = Some PH_E"
    by (simp add: fin Let_def)
  have a: "\<exists>s fl. sim_run (callAI_finish stale_state stale_request out, None) [EvTick 1]
           = Inr (s, fl)
         \<and> phaseKey (light s) = PH_E \<and> subPhase (light s) = Green"
    by (simp add: fin stale_state_def ev)
  have a': "\<exists>s fl. sim_run (Simulation_new AI, None)
           ([EvTick 15, EvTick 3, EvTick 1, EvTick 15, EvTick 3] @ [EvOutcome out, EvTick 1])
           = Inr (s, fl)
         \<and> phaseKey (light s) = PH_E \<and> subPhase (light s) = Green"
    using a by (simp only: sim_run_append r sum.case) simp
  have b: "\<exists>s fl. sim_run (Simulation_new Baseline, None)
           ([EvTick 15, EvTick 3, EvTick 1, EvTick 15, EvTick 3] @ [EvTick 1])
           = Inr (s, fl)
         \<and> phaseKey (light s) = PH_S \<and> subPhase (light s) = Green"
    by (simp add: ev)
  show ?thesis
    using r l d p n a' b by (simp only: clockwise_successor.simps stale_request_def
        ai_request.simps simp_thms)
qed

section \<open>The heuristic duration\<close>

lemma round_half_up_round: "round_half_up x = of_int (round x)"
  by (simp add: round_half_up_def round_def)

lemma targetDur_heuristic_target:
  "targetDur q ctx = Fin (heuristic_target (demand q (fixedNextId ctx)))"
  by (simp add: targetDur_def clamp_def heuristic_target_def round_half_up_round)

lemma heuristic_target_bounds: "5 \<le> heuristic_target load \<and> heuristic_target load \<le> 45"
  by (simp add: heuristic_target_def)

lemma heuristic_target_int: "\<exists>k::int. heuristic_target load = of_int k"
proof -
  have "heuristic_target load = of_int (max 5 (min 45 (round (8 + load * (18 / 10)))))"
    by (simp add: heuristic_target_def)
  then show ?thesis by blast
qed

lemma clampDur_heuristic_target:
  "clampDur (JNumber (Fin (heuristic_target load))) = Fin (heuristic_target load)"
proof -
  obtain k :: int where k: "heuristic_target load = of_int k"
    using heuristic_target_int by blast
  have b: "5 \<le> heuristic_target load" "heuristic_target load \<le> 45"
    using heuristic_target_bounds by simp_all
  have nz: "heuristic_target load \<noteq> 0" using b by simp
  have r: "round_half_up (heuristic_target load) = heuristic_target load"
    by (simp add: k round_half_up_round)
  show ?thesis
    using b nz by (simp add: clampDur_def js_or_def r)
qed

lemma demand_arm_demand:
  "demand q (phase_num ph) = (case main_arm ph of Some a \<Rightarrow> arm_demand q a | None \<Rightarrow> 0)"
  by (cases ph) (simp_all add: demand_def arm_demand_def)

lemma decide_falls_back:
  "falls_back out \<Longrightarrow> decide q ctx out = heuristic q ctx"
  by (cases out) (simp_all add: decide_def Let_def)

text \<open>
  The advisor's target duration is round(8 + demand of the next phase times 1.8) clamped
  to 5 to 45 seconds, where the demand of a single-arm phase is the straight queue plus
  the right queue plus a quarter of the left queue of its arm; the target lies between 5
  and 45 for every value of the demand. When the endpoint is not configured, the request
  fails (transport error, timeout, bad status, unparsable body) or the response's
  duration does not coerce to a finite number (it is missing, \<open>NaN\<close>, infinite, or a
  string or object that reads as no number), the advisor passes exactly this target to
  \<open>setNextPhase\<close>, and the controller stores it unchanged as the green duration of the
  next phase. The test of the code is on the coerced value: a \<open>null\<close> or boolean
  duration coerces to 0 or 1 and does not reach this branch.
\<close>

lemma heuristic_fallback:
  "targetDur q ctx = Fin (heuristic_target (demand q (fixedNextId ctx)))
   \<and> demand q (phase_num ph) = (case main_arm ph of Some a \<Rightarrow> arm_demand q a | None \<Rightarrow> 0)
   \<and> 0 \<le> demand q (fixedNextId ctx)
   \<and> 5 \<le> heuristic_target load \<and> heuristic_target load \<le> 45
   \<and> (falls_back out \<longrightarrow>
        d_duration (decide q ctx out) = targetDur q ctx
        \<and> d_rationale (decide q ctx out) = Fallback
        \<and> (\<exists>k. resolve_phase (IdNum (Fin (real (fixedNextId ctx)))) = Some k
             \<and> nextOverride (light (callAI_finish s \<lparr>rq_context = ctx, rq_queues = q\<rparr> out))
                 = Some k
             \<and> greenDur (light (callAI_finish s \<lparr>rq_context = ctx, rq_queues = q\<rparr> out)) k
                 = targetDur q ctx))
   \<and> falls_back NotConfigured \<and> falls_back RequestFailed
   \<and> falls_back (Response (data\<lparr>r_duration := JUndefined\<rparr>))
   \<and> falls_back (Response (data\<lparr>r_duration := JNumber NaN\<rparr>))
   \<and> falls_back (Response (data\<lparr>r_duration := JOther NaN\<rparr>))
   \<and> \<not> falls_back (Response (data\<lparr>r_duration := JNull\<rparr>))
   \<and> \<not> falls_back (Response (data\<lparr>r_duration := JBool b\<rparr>))
   \<and> \<not> falls_back (Response (data\<lparr>r_duration := JNumber (Fin x)\<rparr>))"
proof -
  have t: "targetDur q ctx = Fin (heuristic_target (demand q (fixedNextId ctx)))"
    by (rule targetDur_heuristic_target)
  have d: "0 \<le> demand q (fixedNextId ctx)"
    by (simp add: demand_def)
  obtain k where k: "resolve_phase (IdNum (Fin (real (fixedNextId ctx)))) = Some k"
    using resolve_fixedNextId_total by blast
  have f: "d_duration (decide q ctx out) = targetDur q ctx
        \<and> d_rationale (decide q ctx out) = Fallback
        \<and> (\<exists>k. resolve_phase (IdNum (Fin (real (fixedNextId ctx)))) = Some k
             \<and> nextOverride (light (callAI_finish s \<lparr>rq_context = ctx, rq_queues = q\<rparr> out))
                 = Some k
             \<and> greenDur (light (callAI_finish s \<lparr>rq_context = ctx, rq_queues = q\<rparr> out)) k
                 = targetDur q ctx)" if fb: "falls_back out"
    using decide_falls_back [OF fb, of q ctx] k
    by (simp add: heuristic_def callAI_finish_def Let_def setNextPhase_def t
        clampDur_heuristic_target)
  show ?thesis
    using t d f by (simp add: demand_arm_demand heuristic_target_bounds)
qed

lemma heuristic_fallback_example:
  "targetDur (\<lambda>d m. if d = East then 2 else 0) (Some PH_N) = Fin 16
   \<and> greenDur (light (callAI_finish (Simulation_new AI)
        \<lparr>rq_context = Some PH_N, rq_queues = (\<lambda>d m. if d = East then 2 else 0)\<rparr>
        RequestFailed)) PH_E = Fin 16"
proof -
  have f: "falls_back RequestFailed" by simp
  have n: "fixedNextId (Some PH_N) = 2" by (simp add: fixedNextId_cases)
  have k: "resolve_phase (IdNum (Fin (real (fixedNextId (Some PH_N))))) = Some PH_E"
    by (simp add: n resolve_phase_def PHASE_NUM_MAP_def)
  have d: "demand (\<lambda>d m. if d = East then 2 else 0) 2 = 9 / 2"
    by (simp add: demand_def)
  have ht: "heuristic_target (9 / 2) = 16"
    by (simp add: heuristic_target_def round_def)
  from heuristic_fallback [of "\<lambda>d m. if d = East then 2 else 0" "Some PH_N"
      PH_N 0 RequestFailed "Simulation_new AI"]
  show ?thesis using f k by (simp add: n d ht)
qed

text \<open>
  C5 fails in the code for a response whose duration is \<open>null\<close>. With 10 vehicles
  queued in the straight lane of the north arm and W the phase that ended, the heuristic
  target for the next phase N is 26 seconds, and a response without a duration is
  answered with it: the controller stores 26 seconds for N. A response whose duration
  is \<open>null\<close> is not a number, yet \<open>Number(null)\<close> is 0 and passes
  \<open>Number.isFinite\<close>; \<open>aiDurRaw || fixedDur\<close> then reads the fixed 15 seconds, the
  response is rejected as no improvement (or accepted, when it carries the flag
  \<open>improved_over_fixed\<close>), and the controller stores 15 seconds for N instead of the
  target. A boolean duration takes the same path.
\<close>

theorem C5_null_duration_bypasses_heuristic:
  "non_numeric JNull
   \<and> Number_js JNull = Fin 0
   \<and> Number_isFinite (Number_js JNull)
   \<and> targetDur (\<lambda>d m. if d = North \<and> m = MStraight then 10 else 0) (Some PH_W) = Fin 26
   \<and> decide (\<lambda>d m. if d = North \<and> m = MStraight then 10 else 0) (Some PH_W)
        (Response \<lparr>r_duration = JUndefined, r_improved = None, r_next_phase = None\<rparr>)
       = \<lparr>d_phase = 1, d_duration = Fin 26, d_rationale = Fallback\<rparr>
   \<and> decide (\<lambda>d m. if d = North \<and> m = MStraight then 10 else 0) (Some PH_W)
        (Response \<lparr>r_duration = JNull, r_improved = None, r_next_phase = None\<rparr>)
       = \<lparr>d_phase = 1, d_duration = Fin 15, d_rationale = Rejected\<rparr>
   \<and> decide (\<lambda>d m. if d = North \<and> m = MStraight then 10 else 0) (Some PH_W)
        (Response \<lparr>r_duration = JNull, r_improved = Some True, r_next_phase = None\<rparr>)
       = \<lparr>d_phase = 1, d_duration = Fin 15, d_rationale = Accepted\<rparr>
   \<and> decide (\<lambda>d m. if d = North \<and> m = MStraight then 10 else 0) (Some PH_W)
        (Response \<lparr>r_duration = JBool False, r_improved = None, r_next_phase = None\<rparr>)
       = \<lparr>d_phase = 1, d_duration = Fin 15, d_rationale = Rejected\<rparr>
   \<and> greenDur (light (callAI_finish (Simulation_new AI)
        \<lparr>rq_context = Some PH_W,
          rq_queues = (\<lambda>d m. if d = North \<and> m = MStraight then 10 else 0)\<rparr>
        (Response \<lparr>r_duration = JNull, r_improved = None, r_next_phase = None\<rparr>))) PH_N
       = Fin 15
   \<and> greenDur (light (callAI_finish (Simulation_new AI)
        \<lparr>rq_context = Some PH_W,
          rq_queues = (\<lambda>d m. if d = North \<and> m = MStraight then 10 else 0)\<rparr>
        (Response \<lparr>r_duration = JUndefined, r_improved = None, r_next_phase = None\<rparr>))) PH_N
       = Fin 26"
proof -
  let ?q = "\<lambda>(d::dir) (m::move). if d = North \<and> m = MStraight then (10::nat) else 0"
  let ?out = "Response \<lparr>r_duration = JNull, r_improved = None, r_next_phase = None\<rparr>"
  let ?und = "Response \<lparr>r_duration = JUndefined, r_improved = None, r_next_phase = None\<rparr>"
  have n: "fixedNextId (Some PH_W) = 1" by (simp add: fixedNextId_cases)
  have d: "demand ?q 1 = 10" by (simp add: demand_def)
  have ht: "heuristic_target 10 = 26" by (simp add: heuristic_target_def round_def)
  have t: "targetDur ?q (Some PH_W) = Fin 26"
    by (simp only: targetDur_heuristic_target n d ht)
  have r15: "round_half_up 15 = 15" by (simp add: round_half_up_def)
  have r26: "round_half_up 26 = 26" by (simp add: round_half_up_def)
  have und: "decide ?q (Some PH_W) ?und
      = \<lparr>d_phase = 1, d_duration = Fin 26, d_rationale = Fallback\<rparr>"
    by (simp add: decide_def Let_def heuristic_def t n)
  have dec: "decide ?q (Some PH_W) ?out
      = \<lparr>d_phase = 1, d_duration = Fin 15, d_rationale = Rejected\<rparr>"
    by (simp add: decide_def Let_def t n js_or_def clamp_def FIXED_GREEN_def r15)
  have acc: "decide ?q (Some PH_W)
        (Response \<lparr>r_duration = JNull, r_improved = Some True, r_next_phase = None\<rparr>)
      = \<lparr>d_phase = 1, d_duration = Fin 15, d_rationale = Accepted\<rparr>"
    by (simp add: decide_def Let_def t n js_or_def clamp_def FIXED_GREEN_def r15)
  have bl: "decide ?q (Some PH_W)
        (Response \<lparr>r_duration = JBool False, r_improved = None, r_next_phase = None\<rparr>)
      = \<lparr>d_phase = 1, d_duration = Fin 15, d_rationale = Rejected\<rparr>"
    by (simp add: decide_def Let_def t n js_or_def clamp_def FIXED_GREEN_def r15)
  have c: "clampDur (JNumber (Fin 15)) = Fin 15"
    by (simp add: clampDur_def js_or_def r15)
  have c26: "clampDur (JNumber (Fin 26)) = Fin 26"
    by (simp add: clampDur_def js_or_def r26)
  have g: "greenDur (light (callAI_finish (Simulation_new AI)
        \<lparr>rq_context = Some PH_W, rq_queues = ?q\<rparr> ?out)) PH_N = Fin 15"
    by (simp add: callAI_finish_def Let_def dec setNextPhase_def resolve_phase_def
        PHASE_NUM_MAP_def c)
  have g26: "greenDur (light (callAI_finish (Simulation_new AI)
        \<lparr>rq_context = Some PH_W, rq_queues = ?q\<rparr> ?und)) PH_N = Fin 26"
    by (simp add: callAI_finish_def Let_def und setNextPhase_def resolve_phase_def
        PHASE_NUM_MAP_def c26)
  show ?thesis using t und dec acc bl g g26 by simp
qed

section \<open>Exit arm and exit lane\<close>

lemma exitDirMap_exit_arm:
  "lane < 3 \<Longrightarrow> LANE_MOVE lane = Some mv \<Longrightarrow> exitDirMap d ! lane = exit_arm d mv"
  by (cases d; cases mv)
     (auto simp add: LANE_MOVE_def exitDirMap_def split: if_splits)

lemma exitLaneMap_rank:
  "lane < 3 \<Longrightarrow> LANE_MOVE lane = Some mv
   \<Longrightarrow> \<bar>exit_coord (exit_arm d mv) (exitLaneMap d ! lane) - MID\<bar>
       = (lane_rank mv + 1 / 2) * LANE_W"
  by (cases d; cases mv)
     (auto simp add: LANE_MOVE_def exitLaneMap_def exit_coord_def exitLaneX_def
        exitLaneY_def N_LANES_def LANE_W_def Let_def split: if_splits)

lemma exitLaneMap_lane_coord:
  "lane < 3 \<Longrightarrow> LANE_MOVE lane = Some mv
   \<Longrightarrow> exit_coord (exit_arm d mv) (exitLaneMap d ! lane) = lane_coord (exit_arm d mv) lane"
  by (cases d; cases mv)
     (auto simp add: LANE_MOVE_def exitLaneMap_def exit_coord_def exitLaneX_def
        exitLaneY_def lane_coord_def laneX_def laneY_def N_LANES_def LANE_W_def Let_def
        split: if_splits)

lemma LANE_MOVE_total: "lane < 3 \<Longrightarrow> \<exists>mv. LANE_MOVE lane = Some mv"
  by (simp add: LANE_MOVE_def)

lemma buildPath_exit:
  assumes "v_lane v < 3"
  shows "\<exists>path. buildPath v
      = Inr (v\<lparr>v_exitDir := Some (exitDirMap (v_dir v) ! v_lane v),
               v_exitLane := Some (exitLaneMap (v_dir v) ! v_lane v)\<rparr>, path)
    \<and> p0 path = \<lparr>px = v_x v, py = v_y v\<rparr>
    \<and> path_end_coord (exitDirMap (v_dir v) ! v_lane v) path
        = exit_coord (exitDirMap (v_dir v) ! v_lane v) (exitLaneMap (v_dir v) ! v_lane v)"
  using assms
  by (cases "exitDirMap (v_dir v) ! v_lane v")
     (simp_all add: buildPath_def Let_def path_end_coord_def exit_coord_def)

text \<open>
  C8: for each of the four entry arms and the three lanes, \<open>buildPath\<close> succeeds and
  stores the exit arm of the fixed table (left-turners leave by the arm to their left,
  straight-through vehicles by their own arm, right-turners by the arm to their right,
  and the table row of the next arm clockwise is the clockwise rotation of the row);
  the exit lane it stores places the vehicle, measured across the road from the centre
  line, in the outer lane (2.5 lane widths) for a left-turner, the middle lane (1.5)
  for a straight-through vehicle and the inner lane (0.5) for a right-turner, on the
  side of the road where the exit arm's own approach lanes run (at the coordinate of
  the approach lane with the vehicle's lane index); the curve ends at that lane
  coordinate.
\<close>

theorem C8_exit_mapping:
  assumes "v_lane v < 3"
  shows "\<exists>mv v' path el.
      LANE_MOVE (v_lane v) = Some mv
    \<and> buildPath v = Inr (v', path)
    \<and> v_exitDir v' = Some (exit_arm (v_dir v) mv)
    \<and> v_exitLane v' = Some el
    \<and> \<bar>exit_coord (exit_arm (v_dir v) mv) el - MID\<bar> = (lane_rank mv + 1 / 2) * LANE_W
    \<and> exit_coord (exit_arm (v_dir v) mv) el = lane_coord (exit_arm (v_dir v) mv) (v_lane v)
    \<and> path_end_coord (exit_arm (v_dir v) mv) path = exit_coord (exit_arm (v_dir v) mv) el
    \<and> exitDirMap (RIGHT_D (v_dir v)) = map RIGHT_D (exitDirMap (v_dir v))"
proof -
  obtain mv where mv: "LANE_MOVE (v_lane v) = Some mv"
    using LANE_MOVE_total [OF assms] by blast
  have ed: "exitDirMap (v_dir v) ! v_lane v = exit_arm (v_dir v) mv"
    by (rule exitDirMap_exit_arm [OF assms mv])
  obtain path where path:
    "buildPath v
      = Inr (v\<lparr>v_exitDir := Some (exit_arm (v_dir v) mv),
               v_exitLane := Some (exitLaneMap (v_dir v) ! v_lane v)\<rparr>, path)"
    "path_end_coord (exit_arm (v_dir v) mv) path
      = exit_coord (exit_arm (v_dir v) mv) (exitLaneMap (v_dir v) ! v_lane v)"
    using buildPath_exit [OF assms] unfolding ed by blast
  have rot: "exitDirMap (RIGHT_D (v_dir v)) = map RIGHT_D (exitDirMap (v_dir v))"
    by (cases "v_dir v") (simp_all add: exitDirMap_def)
  show ?thesis
    using mv path rot exitLaneMap_rank [OF assms mv, of "v_dir v"]
      exitLaneMap_lane_coord [OF assms mv, of "v_dir v"] by simp
qed

theorem C8_exit_mapping_witness:
  "v_lane (Vehicle_new North 0) < 3
   \<and> (\<exists>v' path el. buildPath (Vehicle_new North 0) = Inr (v', path)
        \<and> v_exitDir v' = Some West \<and> v_exitLane v' = Some el
        \<and> \<bar>exit_coord West el - MID\<bar> = 50
        \<and> path_end_coord West path = exit_coord West el)"
proof -
  have h: "v_lane (Vehicle_new North 0) < 3"
    by (simp add: Vehicle_new_def Let_def)
  have m: "LANE_MOVE (v_lane (Vehicle_new North 0)) = Some MLeft"
    by (simp add: Vehicle_new_def Let_def LANE_MOVE_def)
  have d: "v_dir (Vehicle_new North 0) = North"
    by (simp add: Vehicle_new_def Let_def)
  from C8_exit_mapping [OF h] show ?thesis
    using h by (auto simp add: m d LANE_W_def)
qed

section \<open>Determinism of the event source\<close>

lemma lcg_word:
  "unat (to_uint32 (Math_imul w 1664525 + 1013904223)) = lcg_next (unat w)"
proof -
  have "to_uint32 (Math_imul w 1664525 + 1013904223) = w * 1664525 + 1013904223"
    by (simp add: to_uint32_def Math_imul_def)
  then show ?thesis
    by (simp add: lcg_next_def unat_word_ariths mod_simps mult.commute)
qed

lemma rng_lcg:
  "unat (tm_seed (fst (rng tm))) = lcg_next (unat (tm_seed tm))
   \<and> snd (rng tm) = lcg_uniform (lcg_next (unat (tm_seed tm)))
   \<and> tm_queue (fst (rng tm)) = tm_queue tm \<and> tm_t (fst (rng tm)) = tm_t tm"
proof -
  have s: "tm_seed (fst (rng tm)) = to_uint32 (Math_imul (tm_seed tm) 1664525 + 1013904223)"
    by (simp add: rng_def Let_def)
  have r: "snd (rng tm)
      = real (unat (to_uint32 (Math_imul (tm_seed tm) 1664525 + 1013904223))) / 4294967296"
    by (simp only: rng_def Let_def snd_conv)
  have r': "snd (rng tm) = lcg_uniform (lcg_next (unat (tm_seed tm)))"
    unfolding r lcg_word lcg_uniform_def by simp
  have q: "tm_queue (fst (rng tm)) = tm_queue tm \<and> tm_t (fst (rng tm)) = tm_t tm"
    by (simp add: rng_def Let_def)
  show ?thesis using r' q by (simp only: s lcg_word simp_thms)
qed

lemma background_ref:
  "unat (tm_seed (fst (background tm ps))) = fst (ref_background (unat (tm_seed tm)) ps)
   \<and> snd (background tm ps) = snd (ref_background (unat (tm_seed tm)) ps)
   \<and> tm_queue (fst (background tm ps)) = tm_queue tm
   \<and> tm_t (fst (background tm ps)) = tm_t tm"
proof (induction ps arbitrary: tm)
  case Nil
  then show ?case by simp
next
  case (Cons p ps)
  obtain d lane where p: "p = (d, lane)" by (cases p)
  from Cons.IH [of "fst (rng tm)"] rng_lcg [of tm] show ?case
    by (simp add: p split_beta Let_def)
qed

lemma drain_sorted:
  "sorted (map q_time q) \<Longrightarrow>
     drain q t = (map (\<lambda>e. \<lparr>e_dir = q_dir e, e_lane = q_lane e\<rparr>) (filter (\<lambda>e. q_time e \<le> t) q),
                  filter (\<lambda>e. \<not> q_time e \<le> t) q)"
proof (induction q)
  case Nil
  then show ?case by simp
next
  case (Cons e q)
  show ?case
  proof (cases "q_time e \<le> t")
    case True
    with Cons show ?thesis by simp
  next
    case False
    have "\<forall>x \<in> set q. \<not> q_time x \<le> t"
      using Cons.prems False by auto
    then have "filter (\<lambda>e. q_time e \<le> t) q = []" "filter (\<lambda>e. \<not> q_time e \<le> t) q = q"
      by (simp_all add: filter_empty_conv filter_id_conv)
    with False show ?thesis by simp
  qed
qed

lemma sort_key_append_sorted:
  "sort_key f (sort_key f xs @ ys) = sort_key f (xs @ ys)"
proof (rule properties_for_sort_key [symmetric])
  show "mset (sort_key f (sort_key f xs @ ys)) = mset (xs @ ys)" by simp
  show "sorted (map f (sort_key f (sort_key f xs @ ys)))" by simp
  fix k
  show "filter (\<lambda>x. f k = f x) (sort_key f (sort_key f xs @ ys))
      = filter (\<lambda>x. f k = f x) (xs @ ys)"
  proof -
    have e: "\<And>zs. filter (\<lambda>x. f k = f x) zs = filter (\<lambda>x. f x = f k) zs"
      by (rule filter_cong) auto
    show ?thesis unfolding e by (simp add: sort_key_stable)
  qed
qed


lemma tm_tick_ref:
  assumes "refines tm rs"
  shows "refines (fst (tm_tick tm dt)) (fst (ref_tick rs dt))
     \<and> snd (tm_tick tm dt) = snd (ref_tick rs dt)"
proof -
  let ?t = "rs_clock rs + dt"
  let ?due = "sort_key q_time (filter (\<lambda>e. q_time e \<le> ?t) (rs_schedule rs))"
  let ?rest = "sort_key q_time (filter (\<lambda>e. \<not> q_time e \<le> ?t) (rs_schedule rs))"
  let ?tm2 = "tm\<lparr>tm_t := ?t, tm_queue := ?rest\<rparr>"
  have q: "tm_queue tm = sort_key q_time (rs_schedule rs)" and c: "tm_t tm = rs_clock rs"
    and sd: "unat (tm_seed tm) = rs_seed rs"
    using assms by (simp_all add: refines_def)
  have srt: "sorted (map q_time (sort_key q_time (rs_schedule rs)))" by simp
  have d: "drain (tm_queue tm) ?t
      = (map (\<lambda>e. \<lparr>e_dir = q_dir e, e_lane = q_lane e\<rparr>) ?due, ?rest)"
    unfolding q by (simp add: drain_sorted [OF srt] filter_sort)
  have tk: "tm_tick tm dt
      = (fst (background ?tm2 arm_lane_pairs),
         map (\<lambda>e. \<lparr>e_dir = q_dir e, e_lane = q_lane e\<rparr>) ?due
         @ snd (background ?tm2 arm_lane_pairs))"
    by (simp add: tm_tick_def Let_def split_beta c d)
  have rt: "ref_tick rs dt
      = (\<lparr> rs_seed = fst (ref_background (rs_seed rs) arm_lane_pairs),
            rs_schedule = filter (\<lambda>e. \<not> q_time e \<le> ?t) (rs_schedule rs),
            rs_clock = ?t \<rparr>,
         map (\<lambda>e. \<lparr>e_dir = q_dir e, e_lane = q_lane e\<rparr>) ?due
         @ snd (ref_background (rs_seed rs) arm_lane_pairs))"
    by (simp add: ref_tick_def Let_def split_beta)
  have s2: "unat (tm_seed ?tm2) = rs_seed rs" "tm_queue ?tm2 = ?rest" "tm_t ?tm2 = ?t"
    using sd by simp_all
  from background_ref [of ?tm2 arm_lane_pairs] show ?thesis
    unfolding tk rt s2 by (simp add: refines_def)
qed

lemma inject_entries:
  "map (\<lambda>lane. \<lparr>q_time = t + real lane * (4 / 10) + 5 / 100, q_dir = d, q_lane = lane\<rparr>)
     [0..<N_LANES]
   = [\<lparr>q_time = t + 5 / 100, q_dir = d, q_lane = 0\<rparr>,
      \<lparr>q_time = t + 45 / 100, q_dir = d, q_lane = 1\<rparr>,
      \<lparr>q_time = t + 85 / 100, q_dir = d, q_lane = 2\<rparr>]"
  by (simp add: N_LANES_def upt_rec)

lemma injectDir_ref:
  assumes "refines tm rs"
  shows "refines (injectDir tm d) (ref_inject rs d)"
proof -
  have q: "tm_queue tm = sort_key q_time (rs_schedule rs)" and c: "tm_t tm = rs_clock rs"
    and sd: "unat (tm_seed tm) = rs_seed rs"
    using assms by (simp_all add: refines_def)
  have tq: "tm_queue (injectDir tm d)
      = sort_key q_time (tm_queue tm @
          map (\<lambda>lane. \<lparr>q_time = tm_t tm + real lane * (4 / 10) + 5 / 100,
                         q_dir = d, q_lane = lane\<rparr>) [0..<N_LANES])"
    by (simp add: injectDir_def tm_sort_def)
  have "tm_queue (injectDir tm d)
      = sort_key q_time (sort_key q_time (rs_schedule rs) @
          [\<lparr>q_time = rs_clock rs + 5 / 100, q_dir = d, q_lane = 0\<rparr>,
           \<lparr>q_time = rs_clock rs + 45 / 100, q_dir = d, q_lane = 1\<rparr>,
           \<lparr>q_time = rs_clock rs + 85 / 100, q_dir = d, q_lane = 2\<rparr>])"
    unfolding tq inject_entries q c by (rule refl)
  moreover have "rs_schedule (ref_inject rs d) = rs_schedule rs @
          [\<lparr>q_time = rs_clock rs + 5 / 100, q_dir = d, q_lane = 0\<rparr>,
           \<lparr>q_time = rs_clock rs + 45 / 100, q_dir = d, q_lane = 1\<rparr>,
           \<lparr>q_time = rs_clock rs + 85 / 100, q_dir = d, q_lane = 2\<rparr>]"
    by (simp add: ref_inject_def)
  ultimately have "tm_queue (injectDir tm d) = sort_key q_time (rs_schedule (ref_inject rs d))"
    by (simp only: sort_key_append_sorted)
  moreover have "tm_seed (injectDir tm d) = tm_seed tm" "tm_t (injectDir tm d) = tm_t tm"
    by (simp_all add: injectDir_def tm_sort_def)
  moreover have "rs_seed (ref_inject rs d) = rs_seed rs" "rs_clock (ref_inject rs d) = rs_clock rs"
    by (simp_all add: ref_inject_def)
  ultimately show ?thesis by (simp only: refines_def sd c simp_thms)
qed

lemma bulk_entries:
  "map (\<lambda>lane. \<lparr>q_time = t + real i * (5 / 10) + real lane * (15 / 100),
                   q_dir = d, q_lane = lane\<rparr>) [0..<N_LANES]
   = [\<lparr>q_time = t + real i / 2, q_dir = d, q_lane = 0\<rparr>,
      \<lparr>q_time = t + real i / 2 + 15 / 100, q_dir = d, q_lane = 1\<rparr>,
      \<lparr>q_time = t + real i / 2 + 30 / 100, q_dir = d, q_lane = 2\<rparr>]"
  by (simp add: N_LANES_def upt_rec)

lemma bulkAdd_ref:
  assumes "refines tm rs"
  shows "refines (bulkAdd tm tg n) (ref_bulk rs tg n)"
proof -
  have q: "tm_queue tm = sort_key q_time (rs_schedule rs)" and c: "tm_t tm = rs_clock rs"
    and sd: "unat (tm_seed tm) = rs_seed rs"
    using assms by (simp_all add: refines_def)
  let ?new = "concat (map (\<lambda>d. concat (map (\<lambda>i.
            [\<lparr>q_time = rs_clock rs + real i / 2, q_dir = d, q_lane = 0\<rparr>,
             \<lparr>q_time = rs_clock rs + real i / 2 + 15 / 100, q_dir = d, q_lane = 1\<rparr>,
             \<lparr>q_time = rs_clock rs + real i / 2 + 30 / 100, q_dir = d, q_lane = 2\<rparr>])
            [0..<nat n]))
          (case tg of AllArms \<Rightarrow> [North, South, East, West] | Arm a \<Rightarrow> [a]))"
  have tq: "tm_queue (bulkAdd tm tg n)
      = sort_key q_time (tm_queue tm @
          concat (map (\<lambda>d. concat (map (\<lambda>i.
               map (\<lambda>lane. \<lparr>q_time = tm_t tm + real i * (5 / 10) + real lane * (15 / 100),
                              q_dir = d, q_lane = lane\<rparr>) [0..<N_LANES])
               [0..<nat n]))
            (case tg of AllArms \<Rightarrow> [North, South, East, West] | Arm a \<Rightarrow> [a])))"
    by (simp add: bulkAdd_def tm_sort_def Let_def)
  have "tm_queue (bulkAdd tm tg n) = sort_key q_time (sort_key q_time (rs_schedule rs) @ ?new)"
    unfolding tq bulk_entries q c by (rule refl)
  moreover have "rs_schedule (ref_bulk rs tg n) = rs_schedule rs @ ?new"
    by (simp add: ref_bulk_def)
  ultimately have "tm_queue (bulkAdd tm tg n) = sort_key q_time (rs_schedule (ref_bulk rs tg n))"
    by (simp only: sort_key_append_sorted)
  moreover have "tm_seed (bulkAdd tm tg n) = tm_seed tm" "tm_t (bulkAdd tm tg n) = tm_t tm"
    by (simp_all add: bulkAdd_def tm_sort_def Let_def)
  moreover have "rs_seed (ref_bulk rs tg n) = rs_seed rs"
      "rs_clock (ref_bulk rs tg n) = rs_clock rs"
    by (simp_all add: ref_bulk_def)
  ultimately show ?thesis by (simp only: refines_def sd c simp_thms)
qed

lemma tm_run_ref: "refines tm rs \<Longrightarrow> tm_run tm calls = ref_run rs calls"
proof (induction calls arbitrary: tm rs)
  case Nil
  then show ?case by simp
next
  case (Cons c calls)
  show ?case
  proof (cases c)
    case (CallTick dt)
    from tm_tick_ref [OF Cons.prems, of dt] Cons.IH show ?thesis
      by (simp add: CallTick split_beta)
  next
    case (CallInjectDir d)
    from Cons.IH [OF injectDir_ref [OF Cons.prems]] show ?thesis
      by (simp add: CallInjectDir)
  next
    case (CallBulkAdd tg n)
    from Cons.IH [OF bulkAdd_ref [OF Cons.prems]] show ?thesis
      by (simp add: CallBulkAdd)
  qed
qed

lemma calls_on_simps:
  "calls_on a [] = []"
  "calls_on a ((b, call) # tr) = (if b = a then call # calls_on a tr else calls_on a tr)"
  by (simp_all add: calls_on_def)

lemma events_of_simps:
  "events_of a [] = []"
  "events_of a ((b, evs) # out) = (if b = a then evs # events_of a out else events_of a out)"
  by (simp_all add: events_of_def)

lemma store_run_frame:
  "events_of a (store_run st tr) = tm_run (st a) (calls_on a tr)"
proof (induction tr arbitrary: st)
  case Nil
  then show ?case by (simp add: events_of_simps calls_on_simps)
next
  case (Cons c tr)
  obtain b call where c: "c = (b, call)" by (cases c)
  have same: "events_of b (store_run (st(b := X)) tr) = tm_run X (calls_on b tr)"
    if "a = b" for X
    using that by (metis Cons.IH fun_upd_same)
  have other: "events_of a (store_run (st(b := X)) tr) = tm_run (st a) (calls_on a tr)"
    if "a \<noteq> b" for X
    using that by (metis Cons.IH fun_upd_other)
  show ?case
  proof (cases call)
    case (CallTick dt)
    show ?thesis
      by (cases "a = b")
         (simp_all add: c CallTick split_beta events_of_simps calls_on_simps same other)
  next
    case (CallInjectDir d)
    show ?thesis
      by (cases "a = b") (simp_all add: c CallInjectDir calls_on_simps same other)
  next
    case (CallBulkAdd tg n)
    show ?thesis
      by (cases "a = b") (simp_all add: c CallBulkAdd calls_on_simps same other)
  qed
qed

lemma tm_run_length: "length (tm_run tm calls) = length (filter is_tick calls)"
proof (induction calls arbitrary: tm)
  case Nil
  then show ?case by simp
next
  case (Cons c calls)
  then show ?case by (cases c) (simp_all add: split_beta)
qed

lemma fresh_refines:
  "tm_queue tm = [] \<Longrightarrow> tm_t tm = 0 \<Longrightarrow> refines tm (ref_new (unat (tm_seed tm)))"
  by (simp add: refines_def ref_new_def)

lemma arm_lane_pairs_list:
  "arm_lane_pairs =
     [(North, 0), (North, 1), (North, 2), (South, 0), (South, 1), (South, 2),
      (East, 0), (East, 1), (East, 2), (West, 0), (West, 1), (West, 2)]"
  by (simp add: arm_lane_pairs_def N_LANES_def upt_rec)

lemma lcg_steps_1337:
  "lcg_next 1337 = 3239374148"
  "lcg_next 3239374148 = 2360088531"
  "lcg_next 2360088531 = 1178942230"
  "lcg_next 1178942230 = 681817981"
  "lcg_next 681817981 = 1930433208"
  "lcg_next 1930433208 = 1336751799"
  "lcg_next 1336751799 = 2749801642"
  "lcg_next 2749801642 = 2304445441"
  "lcg_next 2304445441 = 2834298220"
  "lcg_next 2834298220 = 1676898779"
  "lcg_next 1676898779 = 1837890942"
  "lcg_next 1837890942 = 1423509189"
  by (simp_all add: lcg_next_def)

lemma no_spawn_1337:
  "\<not> lcg_uniform 3239374148 < SPAWN_RATE"
  "\<not> lcg_uniform 2360088531 < SPAWN_RATE"
  "\<not> lcg_uniform 1178942230 < SPAWN_RATE"
  "\<not> lcg_uniform 681817981 < SPAWN_RATE"
  "\<not> lcg_uniform 1930433208 < SPAWN_RATE"
  "\<not> lcg_uniform 1336751799 < SPAWN_RATE"
  "\<not> lcg_uniform 2749801642 < SPAWN_RATE"
  "\<not> lcg_uniform 2304445441 < SPAWN_RATE"
  "\<not> lcg_uniform 2834298220 < SPAWN_RATE"
  "\<not> lcg_uniform 1676898779 < SPAWN_RATE"
  "\<not> lcg_uniform 1837890942 < SPAWN_RATE"
  "\<not> lcg_uniform 1423509189 < SPAWN_RATE"
  by (simp_all add: lcg_uniform_def SPAWN_RATE_def)

lemma lcg_draws_1337:
  "ref_background 1337 arm_lane_pairs = (1423509189, [])"
  unfolding arm_lane_pairs_list
  by (simp only: ref_background.simps Let_def lcg_steps_1337 no_spawn_1337 if_False
      prod.case append_Nil)

text \<open>
  C3: take any number of TrafficMaster instances and any interleaving of \<open>tick\<close>,
  \<open>injectDir\<close> and \<open>bulkAdd\<close> calls on them. If two of the instances are as
  constructed (empty schedule, clock 0) with the same seed, and the calls made on the one
  are, in order and with their arguments, the calls made on the other, then the event
  lists returned by the \<open>tick\<close> calls on the one are, list by list and element by
  element in the same order, those returned on the other, whatever calls are made on the
  other instances in between. Both are the event stream of the specification for that
  seed and call sequence: the arrivals scheduled so far whose time has come, in
  ascending order of time and, at equal times, in the order of scheduling, followed by
  the background arrivals drawn from the linear congruential generator modulo \<open>2^32\<close>.
  Every \<open>tick\<close> call returns one event list.
\<close>

theorem C3_event_source_deterministic:
  assumes "tm_seed (st a) = tm_seed (st b)"
    and "tm_queue (st a) = []" and "tm_queue (st b) = []"
    and "tm_t (st a) = 0" and "tm_t (st b) = 0"
    and "calls_on a tr = calls_on b tr"
  shows "events_of a (store_run st tr) = events_of b (store_run st tr)
     \<and> events_of a (store_run st tr)
         = ref_run (ref_new (unat (tm_seed (st a)))) (calls_on a tr)
     \<and> length (events_of a (store_run st tr)) = length (filter is_tick (calls_on a tr))"
proof -
  have ra: "refines (st a) (ref_new (unat (tm_seed (st a))))"
    using assms(2,4) by (rule fresh_refines)
  have rb: "refines (st b) (ref_new (unat (tm_seed (st a))))"
    using fresh_refines [OF assms(3,5)] by (simp add: assms(1))
  have ea: "events_of a (store_run st tr)
      = ref_run (ref_new (unat (tm_seed (st a)))) (calls_on a tr)"
    by (simp only: store_run_frame tm_run_ref [OF ra])
  have eb: "events_of b (store_run st tr)
      = ref_run (ref_new (unat (tm_seed (st a)))) (calls_on a tr)"
    by (simp only: store_run_frame tm_run_ref [OF rb] assms(6))
  have l: "length (events_of a (store_run st tr)) = length (filter is_tick (calls_on a tr))"
    by (simp only: store_run_frame tm_run_length)
  show ?thesis using ea eb l by simp
qed

theorem C3_event_source_deterministic_witness:
  "calls_on 0 [(0, CallInjectDir North), (2, CallBulkAdd AllArms 1), (0, CallTick (1 / 10)),
               (2, CallTick 1), (1, CallInjectDir North), (1, CallTick (1 / 10))]
     = calls_on 1 [(0, CallInjectDir North), (2, CallBulkAdd AllArms 1), (0, CallTick (1 / 10)),
               (2, CallTick 1), (1, CallInjectDir North), (1, CallTick (1 / 10))]
   \<and> events_of 0 (store_run (\<lambda>a. TrafficMaster_new)
         [(0, CallInjectDir North), (2, CallBulkAdd AllArms 1), (0, CallTick (1 / 10)),
          (2, CallTick 1), (1, CallInjectDir North), (1, CallTick (1 / 10))])
       = [[\<lparr>e_dir = North, e_lane = 0\<rparr>]]
   \<and> events_of 1 (store_run (\<lambda>a. TrafficMaster_new)
         [(0, CallInjectDir North), (2, CallBulkAdd AllArms 1), (0, CallTick (1 / 10)),
          (2, CallTick 1), (1, CallInjectDir North), (1, CallTick (1 / 10))])
       = [[\<lparr>e_dir = North, e_lane = 0\<rparr>]]"
proof -
  let ?tr = "[(0::nat, CallInjectDir North), (2, CallBulkAdd AllArms 1), (0, CallTick (1 / 10)),
               (2, CallTick 1), (1, CallInjectDir North), (1, CallTick (1 / 10))]"
  let ?st = "\<lambda>a::nat. TrafficMaster_new"
  have c0: "calls_on 0 ?tr = [CallInjectDir North, CallTick (1 / 10)]"
    by (simp add: calls_on_simps)
  have c1: "calls_on 1 ?tr = [CallInjectDir North, CallTick (1 / 10)]"
    by (simp add: calls_on_simps)
  have sd: "unat (tm_seed (?st 0)) = 1337"
    by (simp add: TrafficMaster_new_def LCG_SEED_def)
  have r: "ref_run (ref_new 1337) [CallInjectDir North, CallTick (1 / 10)]
      = [[\<lparr>e_dir = North, e_lane = 0\<rparr>]]"
    by (simp add: ref_new_def ref_inject_def ref_tick_def Let_def lcg_draws_1337)
  have h: "tm_seed (?st 0) = tm_seed (?st 1)" "tm_queue (?st 0) = []" "tm_queue (?st 1) = []"
      "tm_t (?st 0) = 0" "tm_t (?st 1) = 0"
    by (simp_all add: TrafficMaster_new_def)
  have e: "calls_on 0 ?tr = calls_on 1 ?tr" by (simp only: c0 c1)
  from C3_event_source_deterministic [of ?st 0 1 ?tr, OF h e]
  have "events_of 0 (store_run ?st ?tr) = events_of 1 (store_run ?st ?tr)"
    and "events_of 0 (store_run ?st ?tr) = ref_run (ref_new (unat (tm_seed (?st 0)))) (calls_on 0 ?tr)"
    by blast+
  then have "events_of 0 (store_run ?st ?tr) = [[\<lparr>e_dir = North, e_lane = 0\<rparr>]]"
    and "events_of 1 (store_run ?st ?tr) = [[\<lparr>e_dir = North, e_lane = 0\<rparr>]]"
    by (simp_all only: sd c0 r)
  with e show ?thesis by (simp only: simp_thms)
qed

section \<open>Wait accounting\<close>

lemma advance_waitSec: "v_waitSec (advance d v) = v_waitSec v"
  by (simp add: advance_def split: option.split dir.split)

lemma move_vehicle_acc:
  assumes "move_vehicle s i dt = Inr s1" and "i < length (vehicles s)"
    and "\<not> v_done (vehicles s ! i)"
  shows "length (vehicles s1) = length (vehicles s)"
    and "drop (Suc i) (vehicles s1) = drop (Suc i) (vehicles s)"
    and "passedCount s1 = passedCount s + (if exits_now (vehicles s ! i) then 1 else 0)"
    and "totalWaitSec s1
          = totalWaitSec s + (if exits_now (vehicles s ! i) then v_waitSec (vehicles s ! i) else 0)"
  using assms
  by (auto simp add: move_vehicle_def exit_step_def exits_now_def Let_def advance_waitSec
      split: if_splits sum.splits)

lemma move_all_acc:
  "move_all s dt i n = Inr s' \<Longrightarrow> i + n = length (vehicles s) \<Longrightarrow>
     passedCount s' = passedCount s + length (filter exits_now (drop i (vehicles s)))
     \<and> totalWaitSec s'
         = totalWaitSec s + sum_list (map v_waitSec (filter exits_now (drop i (vehicles s))))"
proof (induction n arbitrary: s i)
  case 0
  then show ?case by simp
next
  case (Suc n)
  have i: "i < length (vehicles s)" using Suc.prems(2) by simp
  have d: "drop i (vehicles s) = vehicles s ! i # drop (Suc i) (vehicles s)"
    using i by (simp add: Cons_nth_drop_Suc)
  show ?case
  proof (cases "v_done (vehicles s ! i)")
    case True
    then have "move_all s dt (Suc i) n = Inr s'" using Suc.prems(1) by simp
    from Suc.IH [OF this] Suc.prems(2) True show ?thesis
      by (simp add: d exits_now_def)
  next
    case False
    then obtain s1 where s1: "move_vehicle s i dt = Inr s1" "move_all s1 dt (Suc i) n = Inr s'"
      using Suc.prems(1) by (auto split: sum.splits)
    note acc = move_vehicle_acc [OF s1(1) i False]
    have "Suc i + n = length (vehicles s1)" using acc(1) Suc.prems(2) by simp
    from Suc.IH [OF s1(2) this] show ?thesis
      by (simp add: d acc)
  qed
qed


lemma buildPath_result:
  assumes "buildPath v = Inr (v', path)"
  shows "v' = v\<lparr>v_exitDir := Some (exitDirMap (v_dir v) ! v_lane v),
                 v_exitLane := Some (exitLaneMap (v_dir v) ! v_lane v)\<rparr>"
proof (cases "v_lane v < 3")
  case True
  from buildPath_exit [OF True] assms show ?thesis by auto
next
  case False
  then have "buildPath v = Inl LaneOutOfRange" by (simp add: buildPath_def)
  with assms show ?thesis by simp
qed

lemma advance_done: "v_done (advance d v) = v_done v"
  by (simp add: advance_def split: option.split dir.split)

lemma approach_cases:
  assumes "approach s i dt = Inr v'"
  obtains
    (halt) "pastStop (vehicles s ! i)"
      "\<not> canGo (light s) (v_dir (vehicles s ! i)) (v_move (vehicles s ! i))"
      "v' = (vehicles s ! i)\<lparr>v_stopped := True, v_waiting := True,
              v_waitSec := v_waitSec (vehicles s ! i) + dt\<rparr>"
  | (blocked) "v' = (vehicles s ! i)\<lparr>v_stopped := True, v_waiting := False\<rparr>"
  | (turning) v2 path where
      "buildPath (advance (Some (v_dir (vehicles s ! i)))
          ((vehicles s ! i)\<lparr>v_stopped := False, v_waiting := False\<rparr>)) = Inr (v2, path)"
      "v' = v2\<lparr>v_phase := Turning, v_turnPath := Some path, v_pLen := bezLen path,
                v_turnT := 0, v_x := px (bezAt path 0), v_y := py (bezAt path 0)\<rparr>"
  | (moved)
      "v' = advance (Some (v_dir (vehicles s ! i)))
          ((vehicles s ! i)\<lparr>v_stopped := False, v_waiting := False\<rparr>)"
      "\<not> (pastStop (vehicles s ! i)
          \<and> \<not> canGo (light s) (v_dir (vehicles s ! i)) (v_move (vehicles s ! i)))"
      "\<not> (pastStop (advance (Some (v_dir (vehicles s ! i)))
              ((vehicles s ! i)\<lparr>v_stopped := False, v_waiting := False\<rparr>))
          \<and> canGo (light s) (v_dir (vehicles s ! i)) (v_move (vehicles s ! i)))"
proof -
  let ?v = "vehicles s ! i"
  let ?green = "canGo (light s) (v_dir ?v) (v_move ?v)"
  let ?v1 = "advance (Some (v_dir ?v)) (?v\<lparr>v_stopped := False, v_waiting := False\<rparr>)"
  show ?thesis
  proof (cases "pastStop ?v \<and> \<not> ?green")
    case True
    then have "approach s i dt
        = Inr (?v\<lparr>v_stopped := True, v_waiting := True, v_waitSec := v_waitSec ?v + dt\<rparr>)"
      by (simp add: approach_def Let_def)
    with assms True show ?thesis by (intro halt) simp_all
  next
    case nohalt: False
    show ?thesis
    proof (cases "case gap_of s i of None \<Rightarrow> False | Some g \<Rightarrow> g < CAR_GAP")
      case True
      have "approach s i dt = Inr (?v\<lparr>v_stopped := True, v_waiting := False\<rparr>)"
        by (simp add: approach_def Let_def nohalt True)
      with assms show ?thesis by (intro blocked) simp
    next
      case free: False
      show ?thesis
      proof (cases "pastStop ?v1 \<and> ?green")
        case False
        have "approach s i dt = Inr ?v1"
          by (simp add: approach_def Let_def nohalt free False)
        with assms nohalt False show ?thesis by (intro moved) simp_all
      next
        case True
        have a: "approach s i dt =
            (case buildPath ?v1 of
               Inl e \<Rightarrow> Inl e
             | Inr (v2, path) \<Rightarrow>
                 Inr (v2\<lparr>v_phase := Turning, v_turnPath := Some path, v_pLen := bezLen path,
                        v_turnT := 0, v_x := px (bezAt path 0), v_y := py (bezAt path 0)\<rparr>))"
          by (simp add: approach_def Let_def nohalt free True split: sum.split prod.split)
        show ?thesis
        proof (cases "buildPath ?v1")
          case (Inl e)
          with a assms show ?thesis by simp
        next
          case (Inr r)
          obtain v2 path where r: "r = (v2, path)" by (cases r)
          from a assms Inr r show ?thesis by (intro turning [of v2 path]) simp_all
        qed
      qed
    qed
  qed
qed

lemma approach_done:
  assumes "approach s i dt = Inr v'"
  shows "v_done v' = v_done (vehicles s ! i)"
proof -
  let ?v = "vehicles s ! i"
  let ?v1 = "advance (Some (v_dir ?v)) (?v\<lparr>v_stopped := False, v_waiting := False\<rparr>)"
  have d1: "v_done ?v1 = v_done ?v" by (simp add: advance_done)
  from assms show ?thesis
  proof (cases rule: approach_cases)
    case halt
    then show ?thesis by simp
  next
    case blocked
    then show ?thesis by simp
  next
    case (turning v2 path)
    from buildPath_result [OF turning(1)] turning(2) d1 show ?thesis by simp
  next
    case moved
    then show ?thesis using d1 by simp
  qed
qed

lemma turn_done: "turn v = Inr v' \<Longrightarrow> v_done v' = v_done v"
  by (auto simp add: turn_def Let_def split: option.splits if_splits)

lemma move_vehicle_done:
  assumes "move_vehicle s i dt = Inr s1" and "i < length (vehicles s)"
    and "\<not> v_done (vehicles s ! i)"
  shows "\<exists>v'. vehicles s1 = (vehicles s)[i := v'] \<and> v_done v' = exits_now (vehicles s ! i)"
proof (cases "v_phase (vehicles s ! i)")
  case Approach
  then obtain v' where v': "approach s i dt = Inr v'" "s1 = s\<lparr>vehicles := (vehicles s)[i := v']\<rparr>"
    using assms(1) by (auto simp add: move_vehicle_def Let_def split: sum.splits)
  from approach_done [OF v'(1)] have "v_done v' = v_done (vehicles s ! i)" .
  then show ?thesis using v'(2) assms(3) Approach by (auto simp add: exits_now_def)
next
  case Turning
  then obtain v' where v': "turn (vehicles s ! i) = Inr v'" "s1 = s\<lparr>vehicles := (vehicles s)[i := v']\<rparr>"
    using assms(1) by (auto simp add: move_vehicle_def Let_def split: sum.splits)
  from turn_done [OF v'(1)] v'(2) assms(3) Turning show ?thesis
    by (auto simp add: exits_now_def)
next
  case Exit
  let ?v1 = "advance (v_exitDir (vehicles s ! i)) (vehicles s ! i)"
  show ?thesis
  proof (cases "out_of_bounds ?v1")
    case True
    then have "vehicles s1 = (vehicles s)[i := ?v1\<lparr>v_done := True\<rparr>]"
      using assms(1) Exit by (auto simp add: move_vehicle_def exit_step_def Let_def)
    moreover have "v_done (?v1\<lparr>v_done := True\<rparr>) = exits_now (vehicles s ! i)"
      using True Exit assms(3) by (simp add: exits_now_def)
    ultimately show ?thesis by blast
  next
    case False
    then have "vehicles s1 = (vehicles s)[i := ?v1]"
      using assms(1) Exit by (auto simp add: move_vehicle_def exit_step_def Let_def)
    moreover have "v_done ?v1 = exits_now (vehicles s ! i)"
      using False Exit assms(3) by (simp add: exits_now_def advance_done)
    ultimately show ?thesis by blast
  qed
qed

lemma move_all_done:
  "move_all s dt i n = Inr s' \<Longrightarrow> i + n = length (vehicles s) \<Longrightarrow>
     map v_done (vehicles s')
       = map v_done (take i (vehicles s))
         @ map (\<lambda>v. v_done v \<or> exits_now v) (drop i (vehicles s))"
proof (induction n arbitrary: s i)
  case 0
  then show ?case by simp
next
  case (Suc n)
  have i: "i < length (vehicles s)" using Suc.prems(2) by simp
  have d: "drop i (vehicles s) = vehicles s ! i # drop (Suc i) (vehicles s)"
    using i by (simp add: Cons_nth_drop_Suc)
  have t: "take (Suc i) (vehicles s) = take i (vehicles s) @ [vehicles s ! i]"
    using i by (simp add: take_Suc_conv_app_nth)
  show ?case
  proof (cases "v_done (vehicles s ! i)")
    case True
    then have "move_all s dt (Suc i) n = Inr s'" using Suc.prems(1) by simp
    from Suc.IH [OF this] Suc.prems(2) True show ?thesis
      by (simp add: d t)
  next
    case False
    then obtain s1 where s1: "move_vehicle s i dt = Inr s1" "move_all s1 dt (Suc i) n = Inr s'"
      using Suc.prems(1) by (auto split: sum.splits)
    obtain v' where v': "vehicles s1 = (vehicles s)[i := v']"
        "v_done v' = exits_now (vehicles s ! i)"
      using move_vehicle_done [OF s1(1) i False] by blast
    have "Suc i + n = length (vehicles s1)" using v'(1) Suc.prems(2) by simp
    from Suc.IH [OF s1(2) this] show ?thesis
      using i False by (simp add: d v' take_Suc_conv_app_nth)
  qed
qed

lemma length_filter_not_done:
  "length (filter (\<lambda>v. \<not> v_done v) xs) = length (filter (\<lambda>b. \<not> b) (map v_done xs))"
  by (induction xs) simp_all

lemma tick_light_fields:
  "vehicles (fst (tick_light s dt)) = vehicles s
   \<and> passedCount (fst (tick_light s dt)) = passedCount s
   \<and> totalWaitSec (fst (tick_light s dt)) = totalWaitSec s
   \<and> totalPassed (fst (tick_light s dt)) = totalPassed s"
  by (simp add: tick_light_def Let_def callAI_begin_def split_beta split: option.split)

lemma sim_tick_move_all:
  assumes "sim_tick s dt = Inr (s', rq)"
  shows "\<exists>s4. move_all (fst (tick_light s dt)) dt 0 (length (vehicles s)) = Inr s4
      \<and> vehicles s' = filter (\<lambda>v. \<not> v_done v) (vehicles s4)
      \<and> passedCount s' = passedCount s4 \<and> totalWaitSec s' = totalWaitSec s4"
  using assms
  by (auto simp add: sim_tick_def split_beta tick_light_fields split: sum.splits)

text \<open>
  C9: a tick increases the passed-vehicle count by the number of vehicles that leave
  in it (vehicles in the exit phase whose step takes them beyond the extended
  boundary, which are exactly the vehicles the tick marks done and drops) and the
  total wait by the sum of the accumulated wait times of these vehicles: 1 and its own
  wait time for each vehicle that goes from exit to done. A tick in which no vehicle
  leaves changes neither accumulator. The average wait is the total wait divided by
  the passed count, and 0 when no vehicle has passed.
\<close>

theorem C9_wait_accounting:
  assumes "sim_tick s dt = Inr (s', rq)"
  shows "passedCount s' = passedCount s + length (filter exits_now (vehicles s))
    \<and> totalWaitSec s'
        = totalWaitSec s + sum_list (map v_waitSec (filter exits_now (vehicles s)))
    \<and> length (vehicles s')
        = length (filter (\<lambda>v. \<not> (v_done v \<or> exits_now v)) (vehicles s))
    \<and> avgWait s' = (if passedCount s' = 0 then 0 else totalWaitSec s' / real (passedCount s'))"
proof -
  define s3 where "s3 = fst (tick_light s dt)"
  have f: "vehicles s3 = vehicles s" "passedCount s3 = passedCount s"
      "totalWaitSec s3 = totalWaitSec s"
    by (simp_all add: s3_def tick_light_fields)
  obtain s4 where m4: "move_all s3 dt 0 (length (vehicles s3)) = Inr s4"
      and m5: "vehicles s' = filter (\<lambda>v. \<not> v_done v) (vehicles s4)"
      and m6: "passedCount s' = passedCount s4" "totalWaitSec s' = totalWaitSec s4"
    using sim_tick_move_all [OF assms] unfolding s3_def [symmetric] f by blast
  have acc: "passedCount s4 = passedCount s3 + length (filter exits_now (vehicles s3))"
      "totalWaitSec s4
        = totalWaitSec s3 + sum_list (map v_waitSec (filter exits_now (vehicles s3)))"
    using move_all_acc [OF m4] by simp_all
  have "map v_done (vehicles s4) = map (\<lambda>v. v_done v \<or> exits_now v) (vehicles s3)"
    using move_all_done [OF m4] by simp
  then have "length (vehicles s')
      = length (filter (\<lambda>v. \<not> (v_done v \<or> exits_now v)) (vehicles s))"
    by (simp add: m5 f length_filter_not_done filter_map comp_def)
  then show ?thesis
    by (simp add: f m6 acc avgWait_def)
qed

section \<open>Approach and the stop line\<close>

subsection \<open>The invariant of the approach\<close>



lemma overshoot_flags [simp]:
  "overshoot (v\<lparr>v_stopped := a\<rparr>) = overshoot v"
  "overshoot (v\<lparr>v_waiting := b\<rparr>) = overshoot v"
  "overshoot (v\<lparr>v_waitSec := c\<rparr>) = overshoot v"
  by (simp_all add: overshoot_def Let_def split: dir.split)





lemma move_vehicle_length:
  "move_vehicle s i dt = Inr s1 \<Longrightarrow> length (vehicles s1) = length (vehicles s)"
  by (auto simp add: move_vehicle_def exit_step_def Let_def split: sum.splits if_splits)


lemma tick_light_vehicles: "vehicles (fst (tick_light s dt)) = vehicles s"
  by (simp add: tick_light_def Let_def callAI_begin_def split_beta split: option.split)






subsection \<open>A vehicle that meets a red light\<close>

lemmas config_defs = W_def MID_def CANVAS_W_def BOX_HALF_def CAR_L_def CAR_SPD_def
  CAR_GAP_def LANE_W_def N_LANES_def FIXED_GREEN_def YELLOW_DUR_def ALL_RED_DUR_def





lemma red_light_tick:
  assumes "k \<le> 133"
  shows "light_tick ((TrafficLight_new Baseline)\<lparr>timer := real k / 60\<rparr>) (1 / 60)
     = ((TrafficLight_new Baseline)\<lparr>timer := real (Suc k) / 60\<rparr>, None)"
proof -
  have "real k / 60 + 1 / 60 < 15" using assms by simp
  moreover have "real k / 60 + 1 / 60 = real (Suc k) / 60" by (simp add: field_simps)
  ultimately show ?thesis
    by (simp add: light_tick_def Let_def subphase_dur_def TrafficLight_new_def FIXED_GREEN_def)
qed






subsection \<open>The engine does not fail on well-formed vehicles\<close>

lemma advance_wf: "wf_vehicle (advance d v) = wf_vehicle v"
  by (simp add: advance_def wf_vehicle_def split: option.split dir.split)

lemma approach_ok:
  assumes "wf_vehicle (vehicles s ! i)"
  shows "\<exists>v'. approach s i dt = Inr v' \<and> wf_vehicle v'"
proof -
  let ?v = "vehicles s ! i"
  let ?v1 = "advance (Some (v_dir ?v)) (?v\<lparr>v_stopped := False, v_waiting := False\<rparr>)"
  have w1: "wf_vehicle ?v1" using assms by (simp add: advance_wf) (simp add: wf_vehicle_def)
  then have "v_lane ?v1 < 3" by (simp add: wf_vehicle_def)
  from buildPath_exit [OF this] obtain path where
    bp: "buildPath ?v1 = Inr (?v1\<lparr>v_exitDir := Some (exitDirMap (v_dir ?v1) ! v_lane ?v1),
               v_exitLane := Some (exitLaneMap (v_dir ?v1) ! v_lane ?v1)\<rparr>, path)"
    by blast
  show ?thesis
    using assms w1 unfolding approach_def Let_def bp
    by (auto simp add: wf_vehicle_def split: option.split)
qed

lemma turn_ok:
  assumes "wf_vehicle v" and "v_phase v = Turning"
  shows "\<exists>v'. turn v = Inr v' \<and> wf_vehicle v'"
  using assms
  by (auto simp add: turn_def wf_vehicle_def Let_def split: option.split)

lemma move_vehicle_ok:
  assumes "i < length (vehicles s)" and "\<forall>v \<in> set (vehicles s). wf_vehicle v"
  shows "\<exists>s1. move_vehicle s i dt = Inr s1 \<and> (\<forall>v \<in> set (vehicles s1). wf_vehicle v)"
proof -
  have w: "wf_vehicle (vehicles s ! i)" using assms by simp
  have u: "\<forall>v \<in> set ((vehicles s)[i := v']). wf_vehicle v" if "wf_vehicle v'" for v'
    using assms(2) that set_update_subset_insert [of "vehicles s" i v'] by auto
  show ?thesis
  proof (cases "v_phase (vehicles s ! i)")
    case Approach
    obtain v' where "approach s i dt = Inr v'" "wf_vehicle v'"
      using approach_ok [OF w] by blast
    then show ?thesis using Approach u by (simp add: move_vehicle_def)
  next
    case Turning
    obtain v' where "turn (vehicles s ! i) = Inr v'" "wf_vehicle v'"
      using turn_ok [OF w Turning] by blast
    then show ?thesis using Turning u by (simp add: move_vehicle_def)
  next
    case Exit
    have "wf_vehicle (advance (v_exitDir (vehicles s ! i)) (vehicles s ! i))"
      "wf_vehicle ((advance (v_exitDir (vehicles s ! i)) (vehicles s ! i))\<lparr>v_done := True\<rparr>)"
      using w by (simp_all add: advance_wf) (simp add: wf_vehicle_def advance_def
          split: option.split dir.split)
    then show ?thesis using Exit u by (simp add: move_vehicle_def exit_step_def Let_def)
  qed
qed

lemma move_all_ok:
  "i + n = length (vehicles s) \<Longrightarrow> \<forall>v \<in> set (vehicles s). wf_vehicle v
   \<Longrightarrow> \<exists>s'. move_all s dt i n = Inr s' \<and> (\<forall>v \<in> set (vehicles s'). wf_vehicle v)"
proof (induction n arbitrary: s i)
  case 0
  then show ?case by simp
next
  case (Suc n)
  have i: "i < length (vehicles s)" using Suc.prems(1) by simp
  show ?case
  proof (cases "v_done (vehicles s ! i)")
    case True
    from Suc.IH [of "Suc i" s] Suc.prems True show ?thesis by simp
  next
    case False
    obtain s1 where s1: "move_vehicle s i dt = Inr s1" "\<forall>v \<in> set (vehicles s1). wf_vehicle v"
      using move_vehicle_ok [OF i Suc.prems(2)] by blast
    have "Suc i + n = length (vehicles s1)"
      using move_vehicle_length [OF s1(1)] Suc.prems(1) by simp
    from Suc.IH [OF this s1(2)] show ?thesis using False s1(1) by simp
  qed
qed

lemma sim_tick_ok:
  assumes "\<forall>v \<in> set (vehicles s). wf_vehicle v"
  shows "\<exists>s' rq. sim_tick s dt = Inr (s', rq) \<and> (\<forall>v \<in> set (vehicles s'). wf_vehicle v)"
proof -
  let ?s3 = "fst (tick_light s dt)"
  have "0 + length (vehicles ?s3) = length (vehicles ?s3)" by simp
  from move_all_ok [OF this, of dt] assms obtain s4 where
    "move_all ?s3 dt 0 (length (vehicles ?s3)) = Inr s4" "\<forall>v \<in> set (vehicles s4). wf_vehicle v"
    by (auto simp add: tick_light_vehicles)
  then show ?thesis by (simp add: sim_tick_def split_beta)
qed

lemma sim_step_ok:
  assumes "\<forall>v \<in> set (vehicles (fst st)). wf_vehicle v" and "spawn_ok ev"
  shows "\<exists>st'. sim_step st ev = Inr st' \<and> (\<forall>v \<in> set (vehicles (fst st')). wf_vehicle v)"
proof -
  obtain s fl where st: "st = (s, fl)" by (cases st)
  show ?thesis
  proof (cases ev)
    case (EvTick dt)
    from sim_tick_ok [of s dt] assms(1) show ?thesis
      by (auto simp add: st EvTick)
  next
    case (EvSpawn d lane)
    then have "wf_vehicle (Vehicle_new d lane)"
      using assms(2) by (simp add: wf_vehicle_def Vehicle_new_def Let_def N_LANES_def)
    then show ?thesis using assms(1) by (simp add: st EvSpawn spawn_def)
  next
    case EvStart
    then show ?thesis using assms(1)
      by (auto simp add: st callAI_begin_def)
  next
    case (EvOutcome out)
    then show ?thesis using assms(1)
      by (auto simp add: st callAI_finish_def Let_def split: option.split)
  qed
qed

lemma sim_run_ok:
  "\<forall>v \<in> set (vehicles (fst st)). wf_vehicle v \<Longrightarrow> \<forall>ev \<in> set evs. spawn_ok ev
   \<Longrightarrow> \<exists>st'. sim_run st evs = Inr st'"
proof (induction evs arbitrary: st)
  case Nil
  then show ?case by simp
next
  case (Cons ev evs)
  obtain st1 where st1: "sim_step st ev = Inr st1" "\<forall>v \<in> set (vehicles (fst st1)). wf_vehicle v"
    using sim_step_ok [OF Cons.prems(1), of ev] Cons.prems(2) by auto
  from Cons.IH [OF st1(2)] Cons.prems(2) show ?case by (simp add: st1(1))
qed

lemma sim_run_total:
  "\<forall>ev \<in> set evs. spawn_ok ev \<Longrightarrow> \<exists>st'. sim_run (Simulation_new m, None) evs = Inr st'"
  by (rule sim_run_ok) (simp_all add: Simulation_new_def)

subsection \<open>The stop line\<close>






section \<open>Wait accounting at a concrete state\<close>

theorem C9_wait_accounting_witness:
  "sim_tick ((Simulation_new Baseline)\<lparr>vehicles := [leaving]\<rparr>) (1 / 60)
      = Inr ((Simulation_new Baseline)
               \<lparr>vehicles := [], simTime := 1 / 60,
                 light := (TrafficLight_new Baseline)\<lparr>timer := 1 / 60\<rparr>,
                 totalPassed := 1, totalWaitSec := 7, passedCount := 1\<rparr>, None)
   \<and> passedCount ((Simulation_new Baseline)
               \<lparr>vehicles := [], simTime := 1 / 60,
                 light := (TrafficLight_new Baseline)\<lparr>timer := 1 / 60\<rparr>,
                 totalPassed := 1, totalWaitSec := 7, passedCount := 1\<rparr>)
       = passedCount ((Simulation_new Baseline)\<lparr>vehicles := [leaving]\<rparr>)
         + length (filter exits_now [leaving])
   \<and> filter exits_now [leaving] = [leaving]
   \<and> v_waitSec leaving = 7
   \<and> avgWait ((Simulation_new Baseline)
               \<lparr>vehicles := [], simTime := 1 / 60,
                 light := (TrafficLight_new Baseline)\<lparr>timer := 1 / 60\<rparr>,
                 totalPassed := 1, totalWaitSec := 7, passedCount := 1\<rparr>) = 7"
proof -
  let ?s = "(Simulation_new Baseline)\<lparr>vehicles := [leaving]\<rparr>"
  let ?s' = "(Simulation_new Baseline)
               \<lparr>vehicles := [], simTime := 1 / 60,
                 light := (TrafficLight_new Baseline)\<lparr>timer := 1 / 60\<rparr>,
                 totalPassed := 1, totalWaitSec := 7, passedCount := 1\<rparr>"
  have sl: "Simulation_new Baseline
      = \<lparr> light = TrafficLight_new Baseline, vehicles = [], simTime = 0, totalPassed = 0,
          totalWaitSec = 0, passedCount = 0, aiPending = False \<rparr>"
    by (simp add: Simulation_new_def TrafficLight_new_def)
  have lt: "light_tick (TrafficLight_new Baseline) (1 / 60)
      = ((TrafficLight_new Baseline)\<lparr>timer := 1 / 60\<rparr>, None)"
    using red_light_tick [of 0] by (simp add: TrafficLight_new_def)
  have lv: "v_phase leaving = Exit" "\<not> v_done leaving" "v_exitDir leaving = Some North"
      "v_waitSec leaving = 7" "v_y leaving = - 49"
    by (simp_all add: leaving_def Vehicle_new_def Let_def)
  have ex: "exits_now leaving"
    by (simp add: exits_now_def lv advance_def out_of_bounds_def config_defs)
  then have ob: "out_of_bounds (advance (Some North) leaving)"
    by (simp add: exits_now_def lv)
  have t: "sim_tick ?s (1 / 60) = Inr (?s', None)"
    by (simp add: sim_tick_def tick_light_def Let_def sl lt move_vehicle_def exit_step_def
        lv ob advance_waitSec)
  have f: "filter exits_now (vehicles ?s) = [leaving]"
    using ex by simp
  from C9_wait_accounting [OF t] show ?thesis
    using t f by (simp add: lv sl avgWait_def)
qed

end
